theory Spec2Isabelle
  imports Complex_Main
begin

section \<open>Exceptions, operations and the clock\<close>

text \<open>
  The resilience patterns wrap an arbitrary callable. A callable is modelled as a function
  on an explicit world \<open>'w\<close> (everything outside the pattern object: the remote service,
  counters of the caller, the wall clock): it returns either a value (\<open>Inr\<close>) or a raised
  exception (\<open>Inl\<close>), together with the world it leaves behind. A pattern that does not invoke
  the callable returns the world it was given.

  \<open>time.time()\<close> is a read of the world through \<open>clock\<close>. Python floats are idealised
  as real numbers: only the order and differences of timestamps are used.

  An exception of the caller carries whether its class derives from \<open>Exception\<close> (the
  clauses \<open>except Exception\<close> do not catch \<open>KeyboardInterrupt\<close> or \<open>SystemExit\<close>),
  its class name and \<open>str(e)\<close>. \<open>RetryExhaustedError\<close> carries its message and its
  \<open>__cause__\<close> (set by \<open>raise ... from e\<close>).
\<close>

datatype exc =
    Raised bool string string
  | CircuitBreakerError string
  | RetryExhaustedError string "exc option"

fun is_Exception :: "exc \<Rightarrow> bool" where
  "is_Exception (Raised b c m) = b"
| "is_Exception (CircuitBreakerError m) = True"
| "is_Exception (RetryExhaustedError m c) = True"

fun str_exc :: "exc \<Rightarrow> string" where
  "str_exc (Raised b c m) = m"
| "str_exc (CircuitBreakerError m) = m"
| "str_exc (RetryExhaustedError m c) = m"

type_synonym ('w, 'a) callable = "'w \<Rightarrow> (exc + 'a) \<times> 'w"

section \<open>Circuit breaker (patterns/circuit\_breaker.py)\<close>

datatype CircuitState = CLOSED | OPEN | HALF_OPEN

fun CircuitState_value :: "CircuitState \<Rightarrow> string" where
  "CircuitState_value CLOSED = ''closed''"
| "CircuitState_value OPEN = ''open''"
| "CircuitState_value HALF_OPEN = ''half_open''"

text \<open>
  The attributes of a \<open>CircuitBreaker\<close>. A leading underscore of the source is written as
  the prefix \<open>p_\<close>. The lock is not modelled: every method below is one sequential
  execution of its body.
\<close>

record CircuitBreaker =
  failure_threshold :: int
  timeout :: real
  success_threshold :: int
  name :: string
  p_state :: CircuitState
  p_failure_count :: int
  p_success_count :: int
  p_last_failure_time :: "real option"

text \<open>\<open>__init__\<close>: \<open>name or "default"\<close> replaces both \<open>None\<close> and the empty string.\<close>

definition CircuitBreaker_init :: "int \<Rightarrow> real \<Rightarrow> int \<Rightarrow> string option \<Rightarrow> CircuitBreaker" where
  "CircuitBreaker_init failure_threshold' timeout' success_threshold' name' =
     \<lparr> failure_threshold = failure_threshold',
       timeout = timeout',
       success_threshold = success_threshold',
       name = (case name' of None \<Rightarrow> ''default'' | Some n \<Rightarrow> if n = [] then ''default'' else n),
       p_state = CLOSED,
       p_failure_count = 0,
       p_success_count = 0,
       p_last_failure_time = None \<rparr>"

definition p_should_attempt_reset :: "('w \<Rightarrow> real) \<Rightarrow> CircuitBreaker \<Rightarrow> 'w \<Rightarrow> bool" where
  "p_should_attempt_reset clock self w =
     (case p_last_failure_time self of
        None \<Rightarrow> False
      | Some t \<Rightarrow> clock w - t \<ge> timeout self)"

text \<open>The property \<open>state\<close>: returns the state and the breaker as the read leaves it.\<close>

definition state :: "('w \<Rightarrow> real) \<Rightarrow> CircuitBreaker \<Rightarrow> 'w \<Rightarrow> CircuitState \<times> CircuitBreaker" where
  "state clock self w =
     (let self' =
        (if p_state self = OPEN then
           (if p_should_attempt_reset clock self w
            then self\<lparr>p_state := HALF_OPEN, p_success_count := 0\<rparr>
            else self)
         else self)
      in (p_state self', self'))"

definition p_trip :: "CircuitBreaker \<Rightarrow> CircuitBreaker" where
  "p_trip self = self\<lparr>p_state := OPEN, p_success_count := 0\<rparr>"

definition p_reset :: "CircuitBreaker \<Rightarrow> CircuitBreaker" where
  "p_reset self = self\<lparr>p_state := CLOSED, p_failure_count := 0, p_success_count := 0\<rparr>"

definition p_on_success :: "CircuitBreaker \<Rightarrow> CircuitBreaker" where
  "p_on_success self =
     (if p_state self = HALF_OPEN then
        (let self1 = self\<lparr>p_success_count := p_success_count self + 1\<rparr>
         in if p_success_count self1 \<ge> success_threshold self1 then p_reset self1 else self1)
      else if p_state self = CLOSED then self\<lparr>p_failure_count := 0\<rparr>
      else self)"

definition p_on_failure :: "('w \<Rightarrow> real) \<Rightarrow> CircuitBreaker \<Rightarrow> 'w \<Rightarrow> CircuitBreaker" where
  "p_on_failure clock self w =
     (let self1 = self\<lparr>p_failure_count := p_failure_count self + 1,
                       p_last_failure_time := Some (clock w)\<rparr>
      in if p_state self1 = HALF_OPEN then p_trip self1
         else if p_failure_count self1 \<ge> failure_threshold self1 then p_trip self1
         else self1)"

definition open_message :: "CircuitBreaker \<Rightarrow> string" where
  "open_message self = ''Circuit breaker '' @ [CHR 0x27] @ name self @ [CHR 0x27] @ '' is OPEN''"

text \<open>
  \<open>call\<close>: the result or the exception that leaves \<open>call\<close>, the breaker afterwards and the
  world afterwards. \<open>_on_failure\<close> reads the clock after the callable has run.
\<close>

definition call ::
  "('w \<Rightarrow> real) \<Rightarrow> CircuitBreaker \<Rightarrow> ('w, 'a) callable \<Rightarrow> 'w \<Rightarrow> (exc + 'a) \<times> CircuitBreaker \<times> 'w" where
  "call clock self func w =
     (let (current_state, self1) = state clock self w
      in if current_state = OPEN then (Inl (CircuitBreakerError (open_message self1)), self1, w)
         else (case func w of
                 (Inr result, w') \<Rightarrow> (Inr result, p_on_success self1, w')
               | (Inl e, w') \<Rightarrow>
                   if is_Exception e then (Inl e, p_on_failure clock self1 w', w')
                   else (Inl e, self1, w')))"

definition reset :: "CircuitBreaker \<Rightarrow> CircuitBreaker" where
  "reset self = p_reset self"

record stats =
  stats_name :: string
  stats_state :: string
  stats_failure_count :: int
  stats_success_count :: int
  stats_last_failure_time :: "real option"

text \<open>\<open>get_stats\<close> reads the attributes directly; it returns the snapshot and the breaker.\<close>

definition get_stats :: "CircuitBreaker \<Rightarrow> stats \<times> CircuitBreaker" where
  "get_stats self =
     (\<lparr> stats_name = name self,
        stats_state = CircuitState_value (p_state self),
        stats_failure_count = p_failure_count self,
        stats_success_count = p_success_count self,
        stats_last_failure_time = p_last_failure_time self \<rparr>, self)"

text \<open>
  A run of calls, each made in a world of its own (time passes between calls): the breaker
  is threaded through, the outcomes are collected.
\<close>

fun calls ::
  "('w \<Rightarrow> real) \<Rightarrow> CircuitBreaker \<Rightarrow> (('w, 'a) callable \<times> 'w) list \<Rightarrow> CircuitBreaker" where
  "calls clock self [] = self"
| "calls clock self ((func, w) # rest) = calls clock (fst (snd (call clock self func w))) rest"

text \<open>A callable fails in a world when it raises an exception derived from \<open>Exception\<close>.\<close>

definition fails :: "('w, 'a) callable \<Rightarrow> 'w \<Rightarrow> bool" where
  "fails func w = (case fst (func w) of Inl e \<Rightarrow> is_Exception e | Inr r \<Rightarrow> False)"

definition succeeds :: "('w, 'a) callable \<Rightarrow> 'w \<Rightarrow> bool" where
  "succeeds func w = (case fst (func w) of Inl e \<Rightarrow> False | Inr r \<Rightarrow> True)"

section \<open>Retry (patterns/retry.py)\<close>

text \<open>\<open>str\<close> of an integer, for the f-string of \<open>RetryExhaustedError\<close>.\<close>

fun digits :: "nat \<Rightarrow> string" where
  "digits n = (if n < 10 then [''0123456789'' ! n] else digits (n div 10) @ [''0123456789'' ! (n mod 10)])"

declare digits.simps [simp del]

definition str_int :: "int \<Rightarrow> string" where
  "str_int i = (if i < 0 then CHR ''-'' # digits (nat (- i)) else digits (nat i))"

definition exhausted_message :: "int \<Rightarrow> string" where
  "exhausted_message n = ''Failed after '' @ str_int n @ '' attempts''"

text \<open>
  \<open>time.sleep\<close> belongs to the environment, like the clock: in the loops below it is a
  parameter \<open>sleep\<close>, a callable of the delay that may raise. \<open>time_sleep\<close> is the function
  of the standard library: it raises \<open>OverflowError\<close> for a delay that the platform cannot
  represent as a time span (\<open>in_range\<close>, a parameter, says which it can; about
  \<open>9.2e9\<close> seconds where the span is a signed 64-bit count of nanoseconds), then
  \<open>ValueError\<close> for a negative delay; otherwise time passes and the world moves on by
  \<open>advance secs\<close>. A NaN, which \<open>time.sleep\<close> refuses as well, is no real number.
\<close>

definition time_sleep :: "(real \<Rightarrow> 'w \<Rightarrow> 'w) \<Rightarrow> (real \<Rightarrow> bool) \<Rightarrow> real \<Rightarrow> ('w, unit) callable" where
  "time_sleep advance in_range secs w =
     (if \<not> in_range secs then
        (Inl (Raised True ''OverflowError'' ''timestamp too large to convert to C _PyTime_t''), w)
      else if secs < 0 then
        (Inl (Raised True ''ValueError'' ''sleep length must be non-negative''), w)
      else (Inr (), advance secs w))"

text \<open>
  The policy object. \<open>exceptions\<close> is the tuple of exception classes, used only through the
  test \<open>except self.exceptions\<close> makes on a raised exception: it is that test.
\<close>

record Retry =
  max_attempts :: int
  initial_delay :: real
  backoff_factor :: real
  exceptions :: "exc \<Rightarrow> bool"
  attempts :: int

definition Retry_init :: "int \<Rightarrow> real \<Rightarrow> real \<Rightarrow> (exc \<Rightarrow> bool) \<Rightarrow> Retry" where
  "Retry_init max_attempts' initial_delay' backoff_factor' exceptions' =
     \<lparr> max_attempts = max_attempts',
       initial_delay = initial_delay',
       backoff_factor = backoff_factor',
       exceptions = exceptions',
       attempts = 0 \<rparr>"

text \<open>
  The loop of \<open>Retry.execute\<close> from iteration \<open>attempt\<close> on, with the local variables
  \<open>delay\<close> and \<open>last_exception\<close>. The last branch is the statement after the loop.
  It returns what leaves \<open>execute\<close>, the policy object and the world.
\<close>

function execute_loop ::
  "(real \<Rightarrow> ('w, unit) callable) \<Rightarrow> Retry \<Rightarrow> ('w, 'a) callable \<Rightarrow> int \<Rightarrow> real \<Rightarrow> exc option \<Rightarrow> 'w
     \<Rightarrow> (exc + 'a) \<times> Retry \<times> 'w" where
  "execute_loop sleep self func attempt delay last_exception w =
     (if attempt < max_attempts self then
        (let self1 = self\<lparr>attempts := attempt + 1\<rparr>
         in case func w of
              (Inr result, w') \<Rightarrow> (Inr result, self1, w')
            | (Inl e, w') \<Rightarrow>
                if exceptions self1 e then
                  (if attempt < max_attempts self1 - 1 then
                     (case sleep delay w' of
                        (Inl e', w'') \<Rightarrow> (Inl e', self1, w'')
                      | (Inr u, w'') \<Rightarrow>
                          execute_loop sleep self1 func (attempt + 1)
                            (delay * backoff_factor self1) (Some e) w'')
                   else (Inl (RetryExhaustedError
                                (exhausted_message (max_attempts self1)) (Some e)), self1, w'))
                else (Inl e, self1, w'))
      else (Inl (RetryExhaustedError (exhausted_message (max_attempts self)) last_exception),
            self, w))"
  by pat_completeness auto
termination
  by (relation "measure (\<lambda>(sleep, self, func, attempt, delay, last_exception, w).
                    nat (max_attempts self - attempt))") auto

declare execute_loop.simps [simp del]

definition execute ::
  "(real \<Rightarrow> ('w, unit) callable) \<Rightarrow> Retry \<Rightarrow> ('w, 'a) callable \<Rightarrow> 'w \<Rightarrow> (exc + 'a) \<times> Retry \<times> 'w" where
  "execute sleep self func w = execute_loop sleep self func 0 (initial_delay self) None w"

text \<open>
  The decorator \<open>retry\<close>: the loop of \<open>wrapper\<close> from iteration \<open>attempt\<close> on. It keeps
  no object; \<open>on_retry\<close> is an optional callback, itself a callable that may raise.
\<close>

function wrapper_loop ::
  "(real \<Rightarrow> ('w, unit) callable) \<Rightarrow> int \<Rightarrow> real \<Rightarrow> (exc \<Rightarrow> bool) \<Rightarrow> (int \<Rightarrow> exc \<Rightarrow> ('w, unit) callable) option
     \<Rightarrow> ('w, 'a) callable \<Rightarrow> int \<Rightarrow> real \<Rightarrow> exc option \<Rightarrow> 'w \<Rightarrow> (exc + 'a) \<times> 'w" where
  "wrapper_loop sleep max_attempts' backoff_factor' exceptions' on_retry func attempt delay
       last_exception w =
     (if attempt < max_attempts' then
        (case func w of
           (Inr result, w') \<Rightarrow> (Inr result, w')
         | (Inl e, w') \<Rightarrow>
             if exceptions' e then
               (if attempt < max_attempts' - 1 then
                  (case (case on_retry of
                           None \<Rightarrow> (Inr (), w')
                         | Some callback \<Rightarrow> callback (attempt + 1) e w') of
                     (Inl e', w'') \<Rightarrow> (Inl e', w'')
                   | (Inr u, w'') \<Rightarrow>
                       (case sleep delay w'' of
                          (Inl e', w''') \<Rightarrow> (Inl e', w''')
                        | (Inr u', w''') \<Rightarrow>
                            wrapper_loop sleep max_attempts' backoff_factor' exceptions' on_retry
                              func (attempt + 1) (delay * backoff_factor') (Some e) w'''))
                else (Inl (RetryExhaustedError (exhausted_message max_attempts') (Some e)), w'))
             else (Inl e, w'))
      else (Inl (RetryExhaustedError (exhausted_message max_attempts') last_exception), w))"
  by pat_completeness auto
termination
  by (relation "measure (\<lambda>(sleep, max_attempts', backoff_factor', exceptions', on_retry, func,
                            attempt, delay, last_exception, w). nat (max_attempts' - attempt))") auto

declare wrapper_loop.simps [simp del]

text \<open>\<open>retry(...)(func)\<close> is again a callable.\<close>

definition retry ::
  "(real \<Rightarrow> ('w, unit) callable) \<Rightarrow> int \<Rightarrow> real \<Rightarrow> real \<Rightarrow> (exc \<Rightarrow> bool) \<Rightarrow> (int \<Rightarrow> exc \<Rightarrow> ('w, unit) callable) option
     \<Rightarrow> ('w, 'a) callable \<Rightarrow> ('w, 'a) callable" where
  "retry sleep max_attempts' initial_delay' backoff_factor' exceptions' on_retry func w =
     wrapper_loop sleep max_attempts' backoff_factor' exceptions' on_retry func 0 initial_delay' None w"

text \<open>
  The world in which attempt number \<open>k\<close> (from 0) is made when every earlier attempt was
  retried: after attempt \<open>j\<close> the loop slept \<open>initial_delay * backoff_factor ^ j\<close>.
\<close>

fun attempt_world :: "(real \<Rightarrow> ('w, unit) callable) \<Rightarrow> Retry \<Rightarrow> ('w, 'a) callable \<Rightarrow> 'w \<Rightarrow> nat \<Rightarrow> 'w" where
  "attempt_world sleep self func w 0 = w"
| "attempt_world sleep self func w (Suc k) =
     snd (sleep (initial_delay self * backoff_factor self ^ k)
            (snd (func (attempt_world sleep self func w k))))"

text \<open>A callable raises a retryable exception in a world.\<close>

definition fails_retryable :: "Retry \<Rightarrow> ('w, 'a) callable \<Rightarrow> 'w \<Rightarrow> bool" where
  "fails_retryable self func w = (case fst (func w) of Inl e \<Rightarrow> exceptions self e | Inr r \<Rightarrow> False)"

text \<open>\<open>time.sleep\<close> accepts a delay in a world: it returns instead of raising.\<close>

definition sleep_returns :: "(real \<Rightarrow> ('w, unit) callable) \<Rightarrow> real \<Rightarrow> 'w \<Rightarrow> bool" where
  "sleep_returns sleep secs w = (case fst (sleep secs w) of Inl e \<Rightarrow> False | Inr u \<Rightarrow> True)"

text \<open>
  Attempt number \<open>j\<close> is retried: the callable raises a retryable exception there and
  \<open>time.sleep\<close> accepts the delay that follows.
\<close>

definition retried ::
  "(real \<Rightarrow> ('w, unit) callable) \<Rightarrow> Retry \<Rightarrow> ('w, 'a) callable \<Rightarrow> 'w \<Rightarrow> nat \<Rightarrow> bool" where
  "retried sleep self func w j =
     (fails_retryable self func (attempt_world sleep self func w j) \<and>
      sleep_returns sleep (initial_delay self * backoff_factor self ^ j)
        (snd (func (attempt_world sleep self func w j))))"

section \<open>Health checks (monitoring/health.py)\<close>

datatype HealthStatus = HEALTHY | DEGRADED | UNHEALTHY

fun HealthStatus_value :: "HealthStatus \<Rightarrow> string" where
  "HealthStatus_value HEALTHY = ''healthy''"
| "HealthStatus_value DEGRADED = ''degraded''"
| "HealthStatus_value UNHEALTHY = ''unhealthy''"

text \<open>
  The attributes of a \<open>HealthCheck\<close>; \<open>name\<close> and \<open>timeout\<close> carry the prefix \<open>hc_\<close>
  to keep them apart from the breaker's. The probe \<open>check_fn\<close> returns a boolean, as annotated.
\<close>

record 'w HealthCheck =
  hc_name :: string
  check_fn :: "('w, bool) callable"
  critical :: bool
  hc_timeout :: real
  last_check_time :: "real option"
  last_status :: "HealthStatus option"
  last_error :: "string option"

definition HealthCheck_init ::
  "string \<Rightarrow> ('w, bool) callable \<Rightarrow> bool \<Rightarrow> real \<Rightarrow> 'w HealthCheck" where
  "HealthCheck_init name' check_fn' critical' timeout' =
     \<lparr> hc_name = name',
       check_fn = check_fn',
       critical = critical',
       hc_timeout = timeout',
       last_check_time = None,
       last_status = None,
       last_error = None \<rparr>"

text \<open>The dictionary that \<open>check\<close> returns, one field for each key.\<close>

record check_result =
  res_name :: string
  res_status :: string
  res_critical :: bool
  res_duration :: real
  res_timestamp :: real
  res_error :: "string option"

text \<open>
  \<open>HealthCheck.check\<close>: the clock is read before the probe and after it. An exception that
  does not derive from \<open>Exception\<close> is not caught and leaves \<open>check\<close>.
\<close>

definition check ::
  "('w \<Rightarrow> real) \<Rightarrow> 'w HealthCheck \<Rightarrow> 'w \<Rightarrow> (exc + check_result) \<times> 'w HealthCheck \<times> 'w" where
  "check clock self w =
     (let start_time = clock w
      in case check_fn self w of
           (Inr result, w') \<Rightarrow>
             (let duration = clock w' - start_time;
                  status = (if result then HEALTHY else UNHEALTHY)
              in (Inr \<lparr> res_name = hc_name self,
                         res_status = HealthStatus_value status,
                         res_critical = critical self,
                         res_duration = duration,
                         res_timestamp = start_time,
                         res_error = None \<rparr>,
                  self\<lparr>last_status := Some status,
                       last_check_time := Some start_time,
                       last_error := None\<rparr>,
                  w'))
         | (Inl e, w') \<Rightarrow>
             if is_Exception e then
               (let duration = clock w' - start_time
                in (Inr \<lparr> res_name = hc_name self,
                           res_status = HealthStatus_value UNHEALTHY,
                           res_critical = critical self,
                           res_duration = duration,
                           res_timestamp = start_time,
                           res_error = Some (str_exc e) \<rparr>,
                    self\<lparr>last_status := Some UNHEALTHY,
                         last_check_time := Some start_time,
                         last_error := Some (str_exc e)\<rparr>,
                    w'))
             else (Inl e, self, w'))"

text \<open>
  \<open>HealthMonitor.checks\<close> is a dictionary, which keeps insertion order: an association list
  with unique keys. Assigning to a key that is present replaces the value in place.
\<close>

record 'w HealthMonitor =
  checks :: "(string \<times> 'w HealthCheck) list"

definition HealthMonitor_init :: "'w HealthMonitor" where
  "HealthMonitor_init = \<lparr> checks = [] \<rparr>"

fun dict_set :: "('k \<times> 'v) list \<Rightarrow> 'k \<Rightarrow> 'v \<Rightarrow> ('k \<times> 'v) list" where
  "dict_set [] k v = [(k, v)]"
| "dict_set ((k', v') # d) k v = (if k' = k then (k, v) # d else (k', v') # dict_set d k v)"

definition add_check ::
  "'w HealthMonitor \<Rightarrow> string \<Rightarrow> ('w, bool) callable \<Rightarrow> bool \<Rightarrow> real \<Rightarrow> 'w HealthMonitor" where
  "add_check self name' check_fn' critical' timeout' =
     self\<lparr>checks := dict_set (checks self) name' (HealthCheck_init name' check_fn' critical' timeout')\<rparr>"

record report =
  rep_status :: string
  rep_timestamp :: real
  rep_checks :: "check_result list"

text \<open>
  The loop of \<open>check_all\<close> over the checks that remain, with the local variables \<open>results\<close>
  and \<open>overall_status\<close>. It returns the two variables after the loop (or the exception that
  ended it), the checks as the loop leaves them, and the world.
\<close>

fun check_all_loop ::
  "('w \<Rightarrow> real) \<Rightarrow> (string \<times> 'w HealthCheck) list \<Rightarrow> check_result list \<Rightarrow> HealthStatus \<Rightarrow> 'w
     \<Rightarrow> (exc + check_result list \<times> HealthStatus) \<times> (string \<times> 'w HealthCheck) list \<times> 'w" where
  "check_all_loop clock [] results overall_status w = (Inr (results, overall_status), [], w)"
| "check_all_loop clock ((k, chk) # rest) results overall_status w =
     (case check clock chk w of
        (Inl e, chk', w') \<Rightarrow> (Inl e, (k, chk') # rest, w')
      | (Inr result, chk', w') \<Rightarrow>
          (let results' = results @ [result];
               overall_status' =
                 (if res_status result = HealthStatus_value UNHEALTHY then
                    (if critical chk' then UNHEALTHY
                     else if overall_status = HEALTHY then DEGRADED
                     else overall_status)
                  else overall_status)
           in case check_all_loop clock rest results' overall_status' w' of
                (r, rest', w'') \<Rightarrow> (r, (k, chk') # rest', w'')))"

definition check_all ::
  "('w \<Rightarrow> real) \<Rightarrow> 'w HealthMonitor \<Rightarrow> 'w \<Rightarrow> (exc + report) \<times> 'w HealthMonitor \<times> 'w" where
  "check_all clock self w =
     (case check_all_loop clock (checks self) [] HEALTHY w of
        (Inl e, checks', w') \<Rightarrow> (Inl e, self\<lparr>checks := checks'\<rparr>, w')
      | (Inr (results, overall_status), checks', w') \<Rightarrow>
          (Inr \<lparr> rep_status = HealthStatus_value overall_status,
                  rep_timestamp = clock w',
                  rep_checks = results \<rparr>,
           self\<lparr>checks := checks'\<rparr>, w'))"

text \<open>The overall status as the aggregation rule states it, from the result records.\<close>

definition aggregate :: "check_result list \<Rightarrow> HealthStatus" where
  "aggregate results =
     (if list_ex (\<lambda>r. res_critical r \<and> res_status r = HealthStatus_value UNHEALTHY) results
      then UNHEALTHY
      else if list_ex (\<lambda>r. res_status r = HealthStatus_value UNHEALTHY) results then DEGRADED
      else HEALTHY)"

section \<open>Example environments\<close>

text \<open>
  A world of the examples is a pair: the reading of the clock and the number of times a
  callable has been invoked. Every callable below takes one second and counts itself.
\<close>

type_synonym world = "real \<times> nat"

definition ex_advance :: "real \<Rightarrow> world \<Rightarrow> world" where
  "ex_advance secs w = (fst w + secs, snd w)"

definition ex_in_range :: "real \<Rightarrow> bool" where
  "ex_in_range secs = (- 9223372036 \<le> secs \<and> secs \<le> 9223372036)"

definition ex_sleep :: "real \<Rightarrow> (world, unit) callable" where
  "ex_sleep = time_sleep ex_advance ex_in_range"

definition ex_failing :: "(world, string) callable" where
  "ex_failing w = (Inl (Raised True ''ConnectionError'' ''service down''), (fst w + 1, Suc (snd w)))"

definition ex_fatal :: "(world, string) callable" where
  "ex_fatal w = (Inl (Raised True ''ValueError'' ''bad request''), (fst w + 1, Suc (snd w)))"

definition ex_working :: "(world, string) callable" where
  "ex_working w = (Inr ''ok'', (fst w + 1, Suc (snd w)))"

definition ex_retryable :: "exc \<Rightarrow> bool" where
  "ex_retryable e = (case e of Raised b c m \<Rightarrow> c = ''ConnectionError'' | _ \<Rightarrow> False)"

definition ex_probe_up :: "(world, bool) callable" where
  "ex_probe_up w = (Inr True, (fst w + 1, Suc (snd w)))"

definition ex_probe_down :: "(world, bool) callable" where
  "ex_probe_down w = (Inr False, (fst w + 1, Suc (snd w)))"

definition ex_probe_raises :: "(world, bool) callable" where
  "ex_probe_raises w = (Inl (Raised True ''TimeoutError'' ''API timeout''), (fst w + 1, Suc (snd w)))"

definition ex_probe_slow :: "(world, bool) callable" where
  "ex_probe_slow w = (Inr True, (fst w + 10, Suc (snd w)))"

text \<open>
  A breaker with \<open>failure_threshold\<close> 1 and \<open>timeout\<close> 60 after one failure at time 6,
  and the same breaker after a state read at time 70.
\<close>

definition ex_open_breaker :: CircuitBreaker where
  "ex_open_breaker = fst (snd (call fst (CircuitBreaker_init 1 60 2 None) ex_failing (5, 0)))"

definition ex_half_open_breaker :: CircuitBreaker where
  "ex_half_open_breaker = snd (state fst ex_open_breaker ((70, 1) :: world))"

text \<open>
  The monitors of the spec's examples: a critical and a non-critical check, registered with
  \<open>add_check\<close>; and a check whose probe answers \<open>True\<close> after 10 seconds under a budget
  of 5.
\<close>

definition ex_monitor_down :: "world HealthMonitor" where
  "ex_monitor_down =
     add_check (add_check HealthMonitor_init ''db'' ex_probe_down True 5) ''cache'' ex_probe_raises False 5"

definition ex_monitor_degraded :: "world HealthMonitor" where
  "ex_monitor_degraded =
     add_check (add_check HealthMonitor_init ''cache'' ex_probe_down False 5) ''db'' ex_probe_up True 5"

definition ex_monitor_up :: "world HealthMonitor" where
  "ex_monitor_up =
     add_check (add_check HealthMonitor_init ''db'' ex_probe_up True 5) ''cache'' ex_probe_up False 5"

definition ex_slow_check :: "world HealthCheck" where
  "ex_slow_check = HealthCheck_init ''api'' ex_probe_slow True 5"

section \<open>Circuit breaker: properties\<close>

lemma state_not_open: "p_state cb \<noteq> OPEN \<Longrightarrow> state clock cb w = (p_state cb, cb)"
  by (simp add: state_def)

lemma call_fails:
  "p_state cb \<noteq> OPEN \<Longrightarrow> fails func w \<Longrightarrow>
   call clock cb func w = (fst (func w), p_on_failure clock cb (snd (func w)), snd (func w))"
  by (cases "func w") (auto simp: call_def state_not_open fails_def split: sum.splits)

lemma call_succeeds:
  "p_state cb \<noteq> OPEN \<Longrightarrow> succeeds func w \<Longrightarrow>
   call clock cb func w = (fst (func w), p_on_success cb, snd (func w))"
  by (cases "func w") (auto simp: call_def state_not_open succeeds_def split: sum.splits)

lemma call_rejected:
  "p_state cb = OPEN \<Longrightarrow> \<not> p_should_attempt_reset clock cb w \<Longrightarrow>
   call clock cb func w = (Inl (CircuitBreakerError (open_message cb)), cb, w)"
  by (simp add: call_def state_def)

lemma calls_append: "calls clock cb (xs @ ys) = calls clock (calls clock cb xs) ys"
  by (induction xs arbitrary: cb) auto

lemma on_failure_closed_below:
  "p_state cb = CLOSED \<Longrightarrow> p_failure_count cb + 1 < failure_threshold cb \<Longrightarrow>
   p_on_failure clock cb w = cb\<lparr>p_failure_count := p_failure_count cb + 1, p_last_failure_time := Some (clock w)\<rparr>"
  by (simp add: p_on_failure_def)

lemma on_failure_closed_reach:
  "p_state cb = CLOSED \<Longrightarrow> failure_threshold cb \<le> p_failure_count cb + 1 \<Longrightarrow>
   p_on_failure clock cb w = cb\<lparr>p_failure_count := p_failure_count cb + 1, p_last_failure_time := Some (clock w),
      p_state := OPEN, p_success_count := 0\<rparr>"
  by (simp add: p_on_failure_def p_trip_def)

lemma calls_failures_stay_closed:
  "p_state cb = CLOSED \<Longrightarrow> \<forall>(func, w) \<in> set evs. fails func w \<Longrightarrow>
   p_failure_count cb + int (length evs) < failure_threshold cb \<Longrightarrow>
   p_state (calls clock cb evs) = CLOSED \<and>
   p_failure_count (calls clock cb evs) = p_failure_count cb + int (length evs) \<and>
   failure_threshold (calls clock cb evs) = failure_threshold cb \<and>
   timeout (calls clock cb evs) = timeout cb \<and>
   name (calls clock cb evs) = name cb"
proof (induction evs arbitrary: cb)
  case Nil
  then show ?case by simp
next
  case (Cons ev evs)
  obtain func w where ev: "ev = (func, w)" by (cases ev)
  let ?cb1 = "p_on_failure clock cb (snd (func w))"
  from Cons.prems ev have f: "fails func w" by simp
  from Cons.prems have lt: "p_failure_count cb + 1 < failure_threshold cb" by simp
  have cb1: "?cb1 = cb\<lparr>p_failure_count := p_failure_count cb + 1, p_last_failure_time := Some (clock (snd (func w)))\<rparr>"
    using Cons.prems(1) lt by (rule on_failure_closed_below)
  have step: "calls clock cb (ev # evs) = calls clock ?cb1 evs"
    using Cons.prems(1) f by (simp add: ev call_fails)
  have "p_state ?cb1 = CLOSED" using Cons.prems(1) by (simp add: cb1)
  moreover have "\<forall>(func, w) \<in> set evs. fails func w" using Cons.prems(2) by simp
  moreover have "p_failure_count ?cb1 + int (length evs) < failure_threshold ?cb1"
    using Cons.prems(3) by (simp add: cb1)
  ultimately have IH: "p_state (calls clock ?cb1 evs) = CLOSED \<and>
   p_failure_count (calls clock ?cb1 evs) = p_failure_count ?cb1 + int (length evs) \<and>
   failure_threshold (calls clock ?cb1 evs) = failure_threshold ?cb1 \<and>
   timeout (calls clock ?cb1 evs) = timeout ?cb1 \<and>
   name (calls clock ?cb1 evs) = name ?cb1"
    by (rule Cons.IH)
  show ?case unfolding step using IH by (simp add: cb1)
qed

lemma calls_rejected:
  "p_state cb = OPEN \<Longrightarrow> \<forall>(func, w) \<in> set evs. \<not> p_should_attempt_reset clock cb w \<Longrightarrow>
   calls clock cb evs = cb"
  by (induction evs) (auto simp: call_rejected)

text \<open>
  Claim C1. Take a breaker with a positive \<open>failure_threshold\<close> that is CLOSED, with the
  consecutive failures so far counted in \<open>_failure_count\<close> (none for a new breaker, after
  a success or after a reset), and a run of failed calls that brings the consecutive failures
  to exactly \<open>failure_threshold\<close>. The breaker stays CLOSED through every shorter run, is
  OPEN after the whole run, and has recorded the time of the last failure; a call made before
  \<open>timeout\<close> has elapsed since then raises \<open>CircuitBreakerError\<close> and returns the
  world it was given, whatever the callable is: the callable is not invoked.
\<close>

theorem CB_trips_after_failure_threshold:
  fixes clock :: "'w \<Rightarrow> real" and evs :: "(('w, 'a) callable \<times> 'w) list"
  assumes thr: "0 < failure_threshold cb"
    and closed: "p_state cb = CLOSED"
    and below: "p_failure_count cb < failure_threshold cb"
    and len: "p_failure_count cb + int (length evs) = failure_threshold cb"
    and fl: "\<forall>(func, w) \<in> set evs. fails func w"
  shows "(\<forall>k < length evs. p_state (calls clock cb (take k evs)) = CLOSED) \<and>
         p_state (calls clock cb evs) = OPEN \<and>
         p_last_failure_time (calls clock cb evs) =
           Some (clock (snd (fst (last evs) (snd (last evs))))) \<and>
         (\<forall>(func' :: ('w, 'b) callable) w'. clock w' - clock (snd (fst (last evs) (snd (last evs)))) < timeout cb \<longrightarrow>
            call clock (calls clock cb evs) func' w' =
              (Inl (CircuitBreakerError (open_message cb)), calls clock cb evs, w'))"
proof -
  from below len have ne: "evs \<noteq> []" by auto
  then obtain pre func w where evs: "evs = pre @ [(func, w)]"
    by (metis rev_exhaust surj_pair)
  let ?mid = "calls clock cb pre"
  let ?fin = "calls clock cb evs"
  let ?tf = "clock (snd (func w))"
  have pre_fails: "\<forall>(func, w) \<in> set pre. fails func w" using fl evs by auto
  have last_fails: "fails func w" using fl evs by auto
  have pre_len: "p_failure_count cb + int (length pre) < failure_threshold cb"
    using len evs by simp
  have mid: "p_state ?mid = CLOSED \<and>
     p_failure_count ?mid = p_failure_count cb + int (length pre) \<and>
     failure_threshold ?mid = failure_threshold cb \<and>
     timeout ?mid = timeout cb \<and> name ?mid = name cb"
    using closed pre_fails pre_len by (rule calls_failures_stay_closed)
  have reach: "failure_threshold ?mid \<le> p_failure_count ?mid + 1"
    using mid len evs by simp
  have fin: "?fin = ?mid\<lparr>p_failure_count := p_failure_count ?mid + 1,
      p_last_failure_time := Some ?tf, p_state := OPEN, p_success_count := 0\<rparr>"
    using mid last_fails reach
    by (simp add: evs calls_append call_fails on_failure_closed_reach)
  have prefixes: "\<forall>k < length evs. p_state (calls clock cb (take k evs)) = CLOSED"
  proof (intro allI impI)
    fix k assume k: "k < length evs"
    have "\<forall>(func, w) \<in> set (take k evs). fails func w"
      using fl by (auto dest: in_set_takeD)
    moreover have "p_failure_count cb + int (length (take k evs)) < failure_threshold cb"
      using k len by simp
    ultimately show "p_state (calls clock cb (take k evs)) = CLOSED"
      using closed calls_failures_stay_closed by blast
  qed
  have opened: "p_state ?fin = OPEN" by (simp add: fin)
  have lastt: "p_last_failure_time ?fin = Some ?tf" by (simp add: fin)
  have msg: "open_message ?fin = open_message cb"
    using mid by (simp add: fin open_message_def)
  have tmo: "timeout ?fin = timeout cb" using mid by (simp add: fin)
  have rej: "\<forall>(func' :: ('w, 'b) callable) w'. clock w' - ?tf < timeout cb \<longrightarrow>
            call clock ?fin func' w' = (Inl (CircuitBreakerError (open_message cb)), ?fin, w')"
  proof (intro allI impI)
    fix func' :: "('w, 'b) callable" and w'
    assume "clock w' - ?tf < timeout cb"
    then have "\<not> p_should_attempt_reset clock ?fin w'"
      using lastt tmo by (simp add: p_should_attempt_reset_def)
    with opened show "call clock ?fin func' w' = (Inl (CircuitBreakerError (open_message cb)), ?fin, w')"
      using call_rejected [of ?fin clock w' func'] msg by simp
  qed
  have l: "last evs = (func, w)" by (simp add: evs)
  show ?thesis using prefixes opened lastt rej unfolding l by simp
qed

theorem CB_trips_after_failure_threshold_witness:
  "p_state (calls fst (CircuitBreaker_init 2 60 2 None) [(ex_failing, (0, 0)), (ex_failing, (5, 1))]) = OPEN \<and>
   call fst (calls fst (CircuitBreaker_init 2 60 2 None) [(ex_failing, (0, 0)), (ex_failing, (5, 1))])
     ex_working (30, 2) =
     (Inl (CircuitBreakerError (open_message (CircuitBreaker_init 2 60 2 None))),
      calls fst (CircuitBreaker_init 2 60 2 None) [(ex_failing, (0, 0)), (ex_failing, (5, 1))], (30, 2))"
proof -
  let ?cb = "CircuitBreaker_init 2 60 2 None"
  let ?evs = "[(ex_failing, (0, 0)), (ex_failing, (5, 1))] :: ((world, string) callable \<times> world) list"
  have h1: "0 < failure_threshold ?cb" by (simp add: CircuitBreaker_init_def)
  have h2: "p_state ?cb = CLOSED" by (simp add: CircuitBreaker_init_def)
  have h3: "p_failure_count ?cb < failure_threshold ?cb" by (simp add: CircuitBreaker_init_def)
  have h4: "p_failure_count ?cb + int (length ?evs) = failure_threshold ?cb"
    by (simp add: CircuitBreaker_init_def)
  have h5: "\<forall>(func, w) \<in> set ?evs. fails func w" by (simp add: fails_def ex_failing_def)
  note t = CB_trips_after_failure_threshold [OF h1 h2 h3 h4 h5, where clock = fst]
  have a: "p_state (calls fst ?cb ?evs) = OPEN" using t by blast
  have b: "\<forall>(func' :: (world, string) callable) w'.
      fst w' - fst (snd (fst (last ?evs) (snd (last ?evs)))) < timeout ?cb \<longrightarrow>
      call fst (calls fst ?cb ?evs) func' w' =
        (Inl (CircuitBreakerError (open_message ?cb)), calls fst ?cb ?evs, w')"
    using t by blast
  have c: "fst ((30, 2) :: world) - fst (snd (fst (last ?evs) (snd (last ?evs)))) < timeout ?cb"
    by (simp add: ex_failing_def CircuitBreaker_init_def)
  from b c have "call fst (calls fst ?cb ?evs) ex_working (30, 2) =
        (Inl (CircuitBreakerError (open_message ?cb)), calls fst ?cb ?evs, (30, 2))"
    by blast
  with a show ?thesis by blast
qed

lemma state_open_elapsed:
  "p_state cb = OPEN \<Longrightarrow> p_should_attempt_reset clock cb w \<Longrightarrow>
   state clock cb w = (HALF_OPEN, cb\<lparr>p_state := HALF_OPEN, p_success_count := 0\<rparr>)"
  by (simp add: state_def)

lemma state_open_waiting:
  "p_state cb = OPEN \<Longrightarrow> \<not> p_should_attempt_reset clock cb w \<Longrightarrow> state clock cb w = (OPEN, cb)"
  by (simp add: state_def)

lemma call_passes:
  "fst (state clock cb w) \<noteq> OPEN \<Longrightarrow>
   fst (call clock cb func w) = fst (func w) \<and> snd (snd (call clock cb func w)) = snd (func w)"
  by (cases "func w") (auto simp: call_def split: prod.splits sum.splits)

lemma call_after_state:
  "call clock cb func w = call clock (snd (state clock cb w)) func w"
  by (auto simp: call_def state_def split: prod.splits)

text \<open>
  Claim C2. For an OPEN breaker whose last failure was at \<open>t\<close>: a call made while less than
  \<open>timeout\<close> has elapsed since \<open>t\<close> is rejected without invoking the callable and leaves
  the breaker as it was, a state read then answers OPEN, and so any run of such calls leaves
  the breaker unchanged; a state read or a call once \<open>timeout\<close> has elapsed moves the breaker
  to HALF\_OPEN with \<open>_success_count\<close> 0, and that call returns the callable's own outcome
  and world: it is let through.
\<close>

theorem CB_open_rejects_until_timeout_then_half_open:
  fixes clock :: "'w \<Rightarrow> real" and func :: "('w, 'a) callable"
    and evs :: "(('w, 'b) callable \<times> 'w) list"
  assumes opn: "p_state cb = OPEN" and lft: "p_last_failure_time cb = Some t"
  shows "(clock w - t < timeout cb \<longrightarrow>
            state clock cb w = (OPEN, cb) \<and>
            call clock cb func w = (Inl (CircuitBreakerError (open_message cb)), cb, w)) \<and>
         ((\<forall>(f, v) \<in> set evs. clock v - t < timeout cb) \<longrightarrow> calls clock cb evs = cb) \<and>
         (clock w - t \<ge> timeout cb \<longrightarrow>
            state clock cb w = (HALF_OPEN, cb\<lparr>p_state := HALF_OPEN, p_success_count := 0\<rparr>) \<and>
            fst (call clock cb func w) = fst (func w) \<and>
            snd (snd (call clock cb func w)) = snd (func w) \<and>
            call clock cb func w =
              call clock (cb\<lparr>p_state := HALF_OPEN, p_success_count := 0\<rparr>) func w)"
proof (intro conjI impI)
  assume "clock w - t < timeout cb"
  then have w: "\<not> p_should_attempt_reset clock cb w"
    using lft by (simp add: p_should_attempt_reset_def)
  show "state clock cb w = (OPEN, cb)" using opn w by (rule state_open_waiting)
  show "call clock cb func w = (Inl (CircuitBreakerError (open_message cb)), cb, w)"
    using opn w by (rule call_rejected)
next
  assume "\<forall>(f, v) \<in> set evs. clock v - t < timeout cb"
  then have "\<forall>(f, v) \<in> set evs. \<not> p_should_attempt_reset clock cb v"
    using lft by (auto simp: p_should_attempt_reset_def)
  with opn show "calls clock cb evs = cb" by (rule calls_rejected)
next
  assume "timeout cb \<le> clock w - t"
  then have e: "p_should_attempt_reset clock cb w"
    using lft by (simp add: p_should_attempt_reset_def)
  show st: "state clock cb w = (HALF_OPEN, cb\<lparr>p_state := HALF_OPEN, p_success_count := 0\<rparr>)"
    using opn e by (rule state_open_elapsed)
  then have "fst (state clock cb w) \<noteq> OPEN" by simp
  then show "fst (call clock cb func w) = fst (func w)"
    and "snd (snd (call clock cb func w)) = snd (func w)"
    using call_passes [of clock cb w func] by simp_all
  show "call clock cb func w = call clock (cb\<lparr>p_state := HALF_OPEN, p_success_count := 0\<rparr>) func w"
    using call_after_state [of clock cb func w] st by simp
qed

lemma on_success_half_open_below:
  "p_state cb = HALF_OPEN \<Longrightarrow> p_success_count cb + 1 < success_threshold cb \<Longrightarrow>
   p_on_success cb = cb\<lparr>p_success_count := p_success_count cb + 1\<rparr>"
  by (simp add: p_on_success_def)

lemma on_success_half_open_reach:
  "p_state cb = HALF_OPEN \<Longrightarrow> success_threshold cb \<le> p_success_count cb + 1 \<Longrightarrow>
   p_on_success cb = cb\<lparr>p_success_count := 0, p_state := CLOSED, p_failure_count := 0\<rparr>"
  by (simp add: p_on_success_def p_reset_def)

lemma calls_successes_stay_half_open:
  "p_state cb = HALF_OPEN \<Longrightarrow> \<forall>(func, w) \<in> set evs. succeeds func w \<Longrightarrow>
   p_success_count cb + int (length evs) < success_threshold cb \<Longrightarrow>
   p_state (calls clock cb evs) = HALF_OPEN \<and>
   p_success_count (calls clock cb evs) = p_success_count cb + int (length evs) \<and>
   success_threshold (calls clock cb evs) = success_threshold cb"
proof (induction evs arbitrary: cb)
  case Nil
  then show ?case by simp
next
  case (Cons ev evs)
  obtain func w where ev: "ev = (func, w)" by (cases ev)
  let ?cb1 = "p_on_success cb"
  from Cons.prems ev have s: "succeeds func w" by simp
  from Cons.prems have lt: "p_success_count cb + 1 < success_threshold cb" by simp
  have cb1: "?cb1 = cb\<lparr>p_success_count := p_success_count cb + 1\<rparr>"
    using Cons.prems(1) lt by (rule on_success_half_open_below)
  have step: "calls clock cb (ev # evs) = calls clock ?cb1 evs"
    using Cons.prems(1) s by (simp add: ev call_succeeds)
  have "p_state ?cb1 = HALF_OPEN" using Cons.prems(1) by (simp add: cb1)
  moreover have "\<forall>(func, w) \<in> set evs. succeeds func w" using Cons.prems(2) by simp
  moreover have "p_success_count ?cb1 + int (length evs) < success_threshold ?cb1"
    using Cons.prems(3) by (simp add: cb1)
  ultimately have IH: "p_state (calls clock ?cb1 evs) = HALF_OPEN \<and>
   p_success_count (calls clock ?cb1 evs) = p_success_count ?cb1 + int (length evs) \<and>
   success_threshold (calls clock ?cb1 evs) = success_threshold ?cb1"
    by (rule Cons.IH)
  show ?case unfolding step using IH by (simp add: cb1)
qed

lemma on_failure_half_open:
  "p_state cb = HALF_OPEN \<Longrightarrow>
   p_on_failure clock cb w = cb\<lparr>p_failure_count := p_failure_count cb + 1,
      p_last_failure_time := Some (clock w), p_state := OPEN, p_success_count := 0\<rparr>"
  by (simp add: p_on_failure_def p_trip_def)

text \<open>
  Claim C3. In HALF\_OPEN, where \<open>_success_count\<close> counts the consecutive successes since
  the breaker became HALF\_OPEN (none on entry) and lies below \<open>success_threshold\<close>, a run
  of successful calls that keeps the count below \<open>success_threshold\<close> leaves the breaker
  HALF\_OPEN, and one that brings it to exactly \<open>success_threshold\<close> leaves it CLOSED
  with both counters 0. One failed
  call in HALF\_OPEN leaves it OPEN with the failure time recorded and \<open>_success_count\<close> 0,
  and every call made before \<open>timeout\<close> has elapsed since that failure is rejected.
\<close>

theorem CB_half_open_closes_after_success_threshold_reopens_on_failure:
  fixes clock :: "'w \<Rightarrow> real" and evs :: "(('w, 'a) callable \<times> 'w) list"
    and func :: "('w, 'b) callable"
  assumes half: "p_state cb = HALF_OPEN"
  shows "(p_success_count cb < success_threshold cb \<and>
          (\<forall>(f, v) \<in> set evs. succeeds f v) \<longrightarrow>
            (p_success_count cb + int (length evs) < success_threshold cb \<longrightarrow>
               p_state (calls clock cb evs) = HALF_OPEN) \<and>
            (p_success_count cb + int (length evs) = success_threshold cb \<longrightarrow>
               p_state (calls clock cb evs) = CLOSED \<and>
               p_failure_count (calls clock cb evs) = 0 \<and>
               p_success_count (calls clock cb evs) = 0)) \<and>
         (fails func w \<longrightarrow>
            p_state (fst (snd (call clock cb func w))) = OPEN \<and>
            p_last_failure_time (fst (snd (call clock cb func w))) = Some (clock (snd (func w))) \<and>
            p_success_count (fst (snd (call clock cb func w))) = 0 \<and>
            (\<forall>(func' :: ('w, 'c) callable) w'.
               clock w' - clock (snd (func w)) < timeout cb \<longrightarrow>
               call clock (fst (snd (call clock cb func w))) func' w' =
                 (Inl (CircuitBreakerError (open_message cb)), fst (snd (call clock cb func w)), w')))"
proof (intro conjI impI)
  assume a: "p_success_count cb < success_threshold cb \<and> (\<forall>(f, v) \<in> set evs. succeeds f v)"
  assume "p_success_count cb + int (length evs) < success_threshold cb"
  then show "p_state (calls clock cb evs) = HALF_OPEN"
    using calls_successes_stay_half_open [of cb evs clock] half a by simp
next
  assume a: "p_success_count cb < success_threshold cb \<and> (\<forall>(f, v) \<in> set evs. succeeds f v)"
  assume len: "p_success_count cb + int (length evs) = success_threshold cb"
  with a have "evs \<noteq> []" by auto
  then obtain pre f v where evs: "evs = pre @ [(f, v)]"
    by (metis rev_exhaust surj_pair)
  let ?mid = "calls clock cb pre"
  have "\<forall>(f, v) \<in> set pre. succeeds f v" using a evs by auto
  moreover have "p_success_count cb + int (length pre) < success_threshold cb"
    using a len evs by simp
  ultimately have mid: "p_state ?mid = HALF_OPEN \<and>
     p_success_count ?mid = p_success_count cb + int (length pre) \<and>
     success_threshold ?mid = success_threshold cb"
    using half calls_successes_stay_half_open by blast
  have s: "succeeds f v" using a evs by auto
  have reach: "success_threshold ?mid \<le> p_success_count ?mid + 1"
    using mid a len evs by simp
  have fin: "calls clock cb evs = ?mid\<lparr>p_success_count := 0, p_state := CLOSED, p_failure_count := 0\<rparr>"
    using mid s reach by (simp add: evs calls_append call_succeeds on_success_half_open_reach)
  show "p_state (calls clock cb evs) = CLOSED" by (simp add: fin)
  show "p_failure_count (calls clock cb evs) = 0" by (simp add: fin)
  show "p_success_count (calls clock cb evs) = 0" by (simp add: fin)
next
  assume f: "fails func w"
  let ?tf = "clock (snd (func w))"
  let ?cb' = "fst (snd (call clock cb func w))"
  have cb': "?cb' = cb\<lparr>p_failure_count := p_failure_count cb + 1,
      p_last_failure_time := Some ?tf, p_state := OPEN, p_success_count := 0\<rparr>"
    using half f by (simp add: call_fails on_failure_half_open)
  show opened: "p_state ?cb' = OPEN" by (simp add: cb')
  show lastt: "p_last_failure_time ?cb' = Some ?tf" by (simp add: cb')
  show "p_success_count ?cb' = 0" by (simp add: cb')
  have msg: "open_message ?cb' = open_message cb" by (simp add: cb' open_message_def)
  have tmo: "timeout ?cb' = timeout cb" by (simp add: cb')
  show "\<forall>(func' :: ('w, 'c) callable) w'. clock w' - ?tf < timeout cb \<longrightarrow>
          call clock ?cb' func' w' = (Inl (CircuitBreakerError (open_message cb)), ?cb', w')"
  proof (intro allI impI)
    fix func' :: "('w, 'c) callable" and w'
    assume "clock w' - ?tf < timeout cb"
    then have "\<not> p_should_attempt_reset clock ?cb' w'"
      using lastt tmo by (simp add: p_should_attempt_reset_def)
    with opened show "call clock ?cb' func' w' = (Inl (CircuitBreakerError (open_message cb)), ?cb', w')"
      using call_rejected [of ?cb' clock w' func'] msg by simp
  qed
qed

lemma ex_open_breaker_eq:
  "ex_open_breaker = \<lparr> failure_threshold = 1, timeout = 60, success_threshold = 2,
     name = ''default'', p_state = OPEN, p_failure_count = 1, p_success_count = 0,
     p_last_failure_time = Some 6 \<rparr>"
  by (simp add: ex_open_breaker_def CircuitBreaker_init_def ex_failing_def call_def state_def
      p_on_failure_def p_trip_def)

lemma ex_half_open_breaker_eq:
  "ex_half_open_breaker = \<lparr> failure_threshold = 1, timeout = 60, success_threshold = 2,
     name = ''default'', p_state = HALF_OPEN, p_failure_count = 1, p_success_count = 0,
     p_last_failure_time = Some 6 \<rparr>"
  by (simp add: ex_half_open_breaker_def ex_open_breaker_eq state_def p_should_attempt_reset_def)

theorem CB_open_rejects_until_timeout_then_half_open_witness:
  "p_state ex_open_breaker = OPEN \<and> p_last_failure_time ex_open_breaker = Some 6 \<and>
   call fst ex_open_breaker ex_working (30, 1) =
     (Inl (CircuitBreakerError (open_message ex_open_breaker)), ex_open_breaker, (30, 1)) \<and>
   calls fst ex_open_breaker [(ex_working, (30, 1)), (ex_working, (65, 1))] = ex_open_breaker \<and>
   fst (state fst ex_open_breaker ((66, 1) :: world)) = HALF_OPEN \<and>
   p_success_count (snd (state fst ex_open_breaker ((66, 1) :: world))) = 0 \<and>
   fst (call fst ex_open_breaker ex_working (66, 1)) = Inr ''ok'' \<and>
   snd (snd (call fst ex_open_breaker ex_working (66, 1))) = (67, 2)"
proof -
  have h1: "p_state ex_open_breaker = OPEN" by (simp add: ex_open_breaker_eq)
  have h2: "p_last_failure_time ex_open_breaker = Some 6" by (simp add: ex_open_breaker_eq)
  have tm: "timeout ex_open_breaker = 60" by (simp add: ex_open_breaker_eq)
  note early = CB_open_rejects_until_timeout_then_half_open
    [OF h1 h2, where clock = fst and w = "(30, 1)" and func = ex_working
       and evs = "[(ex_working, (30, 1)), (ex_working, (65, 1))]"]
  note late = CB_open_rejects_until_timeout_then_half_open
    [OF h1 h2, where clock = fst and w = "(66, 1)" and func = ex_working
       and evs = "[] :: ((world, string) callable \<times> world) list"]
  have e1: "fst ((30, 1) :: world) - 6 < timeout ex_open_breaker" by (simp add: tm)
  have e2: "\<forall>(f, v) \<in> set [(ex_working, (30, 1) :: world), (ex_working, (65, 1))].
              fst v - 6 < timeout ex_open_breaker"
    by (simp add: tm)
  have e3: "timeout ex_open_breaker \<le> fst ((66, 1) :: world) - 6" by (simp add: tm)
  have a: "call fst ex_open_breaker ex_working (30, 1) =
     (Inl (CircuitBreakerError (open_message ex_open_breaker)), ex_open_breaker, (30, 1))"
    using early e1 by blast
  have b: "calls fst ex_open_breaker [(ex_working, (30, 1)), (ex_working, (65, 1))] = ex_open_breaker"
    using early e2 by blast
  have c: "state fst ex_open_breaker ((66, 1) :: world) =
            (HALF_OPEN, ex_open_breaker\<lparr>p_state := HALF_OPEN, p_success_count := 0\<rparr>) \<and>
           fst (call fst ex_open_breaker ex_working (66, 1)) = fst (ex_working (66, 1)) \<and>
           snd (snd (call fst ex_open_breaker ex_working (66, 1))) = snd (ex_working (66, 1))"
    using late e3 by blast
  have d: "fst (ex_working (66, 1)) = Inr ''ok''" "snd (ex_working (66, 1)) = (67, 2)"
    by (simp_all add: ex_working_def)
  have c1: "fst (state fst ex_open_breaker ((66, 1) :: world)) = HALF_OPEN"
    and c2: "p_success_count (snd (state fst ex_open_breaker ((66, 1) :: world))) = 0"
    using c by simp_all
  show ?thesis using h1 h2 a b c c1 c2 d by metis
qed

theorem CB_half_open_closes_after_success_threshold_reopens_on_failure_witness:
  "p_state ex_half_open_breaker = HALF_OPEN \<and>
   p_state (calls fst ex_half_open_breaker [(ex_working, (70, 1))]) = HALF_OPEN \<and>
   p_state (calls fst ex_half_open_breaker [(ex_working, (70, 1)), (ex_working, (72, 2))]) = CLOSED \<and>
   p_failure_count (calls fst ex_half_open_breaker [(ex_working, (70, 1)), (ex_working, (72, 2))]) = 0 \<and>
   p_success_count (calls fst ex_half_open_breaker [(ex_working, (70, 1)), (ex_working, (72, 2))]) = 0 \<and>
   p_state (fst (snd (call fst ex_half_open_breaker ex_failing (70, 1)))) = OPEN \<and>
   p_last_failure_time (fst (snd (call fst ex_half_open_breaker ex_failing (70, 1)))) = Some 71 \<and>
   call fst (fst (snd (call fst ex_half_open_breaker ex_failing (70, 1)))) ex_working (130, 2) =
     (Inl (CircuitBreakerError (open_message ex_half_open_breaker)),
      fst (snd (call fst ex_half_open_breaker ex_failing (70, 1))), (130, 2))"
proof -
  have h: "p_state ex_half_open_breaker = HALF_OPEN" by (simp add: ex_half_open_breaker_eq)
  have sc: "p_success_count ex_half_open_breaker = 0" by (simp add: ex_half_open_breaker_eq)
  have st: "success_threshold ex_half_open_breaker = 2" by (simp add: ex_half_open_breaker_eq)
  have tm: "timeout ex_half_open_breaker = 60" by (simp add: ex_half_open_breaker_eq)
  have ok: "succeeds ex_working w" for w by (simp add: succeeds_def ex_working_def)
  have bad: "fails ex_failing (70, 1)" by (simp add: fails_def ex_failing_def)
  note one = CB_half_open_closes_after_success_threshold_reopens_on_failure
    [OF h, where clock = fst and evs = "[(ex_working, (70, 1))]" and func = ex_failing
       and w = "(70, 1)"]
  note two = CB_half_open_closes_after_success_threshold_reopens_on_failure
    [OF h, where clock = fst and evs = "[(ex_working, (70, 1)), (ex_working, (72, 2))]"
       and func = ex_failing and w = "(70, 1)"]
  have p1: "p_success_count ex_half_open_breaker < success_threshold ex_half_open_breaker \<and>
          (\<forall>(f, v) \<in> set [(ex_working, (70, 1) :: world)]. succeeds f v)"
    using sc st ok by simp
  have p2: "p_success_count ex_half_open_breaker < success_threshold ex_half_open_breaker \<and>
          (\<forall>(f, v) \<in> set [(ex_working, (70, 1) :: world), (ex_working, (72, 2))]. succeeds f v)"
    using sc st ok by simp
  have l1: "p_success_count ex_half_open_breaker + int (length [(ex_working, (70, 1) :: world)]) <
              success_threshold ex_half_open_breaker"
    using sc st by simp
  have l2: "p_success_count ex_half_open_breaker +
              int (length [(ex_working, (70, 1) :: world), (ex_working, (72, 2))]) =
              success_threshold ex_half_open_breaker"
    using sc st by simp
  have a: "p_state (calls fst ex_half_open_breaker [(ex_working, (70, 1))]) = HALF_OPEN"
    using one p1 l1 by blast
  have b: "p_state (calls fst ex_half_open_breaker [(ex_working, (70, 1)), (ex_working, (72, 2))]) = CLOSED \<and>
   p_failure_count (calls fst ex_half_open_breaker [(ex_working, (70, 1)), (ex_working, (72, 2))]) = 0 \<and>
   p_success_count (calls fst ex_half_open_breaker [(ex_working, (70, 1)), (ex_working, (72, 2))]) = 0"
    using two p2 l2 by blast
  let ?cb' = "fst (snd (call fst ex_half_open_breaker ex_failing (70, 1)))"
  have c: "p_state ?cb' = OPEN \<and>
           p_last_failure_time ?cb' = Some (fst (snd (ex_failing (70, 1)))) \<and>
           (\<forall>(func' :: (world, string) callable) w'.
               fst w' - fst (snd (ex_failing (70, 1))) < timeout ex_half_open_breaker \<longrightarrow>
               call fst ?cb' func' w' =
                 (Inl (CircuitBreakerError (open_message ex_half_open_breaker)), ?cb', w'))"
    using one bad by blast
  have d: "fst (snd (ex_failing (70, 1))) = 71" by (simp add: ex_failing_def)
  have lt: "fst ((130, 2) :: world) - fst (snd (ex_failing (70, 1))) < timeout ex_half_open_breaker"
    by (simp add: ex_failing_def tm)
  have e: "call fst ?cb' ex_working (130, 2) =
     (Inl (CircuitBreakerError (open_message ex_half_open_breaker)), ?cb', (130, 2))"
    using c lt by blast
  have c': "p_state ?cb' = OPEN \<and> p_last_failure_time ?cb' = Some 71"
    using c d by simp
  show ?thesis using h a b c' e by blast
qed

text \<open>
  Claim C4 as stated fails: a breaker with \<open>failure_threshold\<close> 1 goes from CLOSED to OPEN
  on its first failed call and then has \<open>_failure_count\<close> 1.
\<close>

theorem CB_transition_resets_both_counters_counterexample:
  "p_state (CircuitBreaker_init 1 60 2 None) = CLOSED \<and>
   p_state (fst (snd (call fst (CircuitBreaker_init 1 60 2 None) ex_failing (5, 0)))) = OPEN \<and>
   \<not> (p_failure_count (fst (snd (call fst (CircuitBreaker_init 1 60 2 None) ex_failing (5, 0)))) = 0 \<and>
      p_success_count (fst (snd (call fst (CircuitBreaker_init 1 60 2 None) ex_failing (5, 0)))) = 0)"
  by (simp add: CircuitBreaker_init_def ex_failing_def call_def state_def p_on_failure_def p_trip_def)

text \<open>
  Claim C4, amended. Whenever the state read, \<open>_on_failure\<close> or \<open>_on_success\<close> changes the
  state, \<open>_success_count\<close> is 0 afterwards. \<open>_failure_count\<close> is 0 after the transition from
  HALF\_OPEN to CLOSED and after \<open>reset\<close>; a trip to OPEN (from CLOSED or HALF\_OPEN) leaves it
  at the count just incremented, and the transition from OPEN to HALF\_OPEN leaves it as it was.
  These are the only state changes the three operations make.
\<close>

theorem CB_transition_counters:
  fixes clock :: "'w \<Rightarrow> real"
  shows
  "(p_state (snd (state clock cb w)) \<noteq> p_state cb \<longrightarrow>
      p_state cb = OPEN \<and> p_state (snd (state clock cb w)) = HALF_OPEN \<and>
      p_success_count (snd (state clock cb w)) = 0 \<and>
      p_failure_count (snd (state clock cb w)) = p_failure_count cb) \<and>
   (p_state (p_on_failure clock cb w) \<noteq> p_state cb \<longrightarrow>
      p_state cb \<noteq> OPEN \<and> p_state (p_on_failure clock cb w) = OPEN \<and>
      p_success_count (p_on_failure clock cb w) = 0 \<and>
      p_failure_count (p_on_failure clock cb w) = p_failure_count cb + 1) \<and>
   (p_state (p_on_success cb) \<noteq> p_state cb \<longrightarrow>
      p_state cb = HALF_OPEN \<and> p_state (p_on_success cb) = CLOSED \<and>
      p_success_count (p_on_success cb) = 0 \<and> p_failure_count (p_on_success cb) = 0) \<and>
   p_state (reset cb) = CLOSED \<and> p_success_count (reset cb) = 0 \<and> p_failure_count (reset cb) = 0"
proof (intro conjI impI)
  assume a: "p_state (snd (state clock cb w)) \<noteq> p_state cb"
  then have o: "p_state cb = OPEN \<and> p_should_attempt_reset clock cb w"
    by (auto simp: state_def split: if_splits)
  then have s: "snd (state clock cb w) = cb\<lparr>p_state := HALF_OPEN, p_success_count := 0\<rparr>"
    by (simp add: state_def)
  show "p_state cb = OPEN" using o by simp
  show "p_state (snd (state clock cb w)) = HALF_OPEN" by (simp add: s)
  show "p_success_count (snd (state clock cb w)) = 0" by (simp add: s)
  show "p_failure_count (snd (state clock cb w)) = p_failure_count cb" by (simp add: s)
next
  assume a: "p_state (p_on_failure clock cb w) \<noteq> p_state cb"
  then have t: "p_on_failure clock cb w = cb\<lparr>p_failure_count := p_failure_count cb + 1,
      p_last_failure_time := Some (clock w), p_state := OPEN, p_success_count := 0\<rparr>"
    by (auto simp: p_on_failure_def p_trip_def Let_def split: if_splits)
  show "p_state cb \<noteq> OPEN" using a t by auto
  show "p_state (p_on_failure clock cb w) = OPEN" by (simp add: t)
  show "p_success_count (p_on_failure clock cb w) = 0" by (simp add: t)
  show "p_failure_count (p_on_failure clock cb w) = p_failure_count cb + 1" by (simp add: t)
next
  assume a: "p_state (p_on_success cb) \<noteq> p_state cb"
  then have h: "p_state cb = HALF_OPEN" and
    r: "p_on_success cb = p_reset (cb\<lparr>p_success_count := p_success_count cb + 1\<rparr>)"
    by (auto simp: p_on_success_def Let_def split: if_splits)
  show "p_state cb = HALF_OPEN" by (rule h)
  show "p_state (p_on_success cb) = CLOSED" by (simp add: r p_reset_def)
  show "p_success_count (p_on_success cb) = 0" by (simp add: r p_reset_def)
  show "p_failure_count (p_on_success cb) = 0" by (simp add: r p_reset_def)
next
  show "p_state (reset cb) = CLOSED" by (simp add: reset_def p_reset_def)
  show "p_success_count (reset cb) = 0" by (simp add: reset_def p_reset_def)
  show "p_failure_count (reset cb) = 0" by (simp add: reset_def p_reset_def)
qed

theorem CB_transition_counters_witness:
  "p_state (p_on_failure fst (CircuitBreaker_init 1 60 2 None) ((6, 1) :: world)) = OPEN \<and>
   p_success_count (p_on_failure fst (CircuitBreaker_init 1 60 2 None) ((6, 1) :: world)) = 0 \<and>
   p_failure_count (p_on_failure fst (CircuitBreaker_init 1 60 2 None) ((6, 1) :: world)) = 1 \<and>
   p_state (snd (state fst ex_open_breaker ((70, 1) :: world))) = HALF_OPEN \<and>
   p_success_count (snd (state fst ex_open_breaker ((70, 1) :: world))) = 0 \<and>
   p_failure_count (snd (state fst ex_open_breaker ((70, 1) :: world))) = 1 \<and>
   p_state (p_on_success (ex_half_open_breaker\<lparr>p_success_count := 1\<rparr>)) = CLOSED \<and>
   p_success_count (p_on_success (ex_half_open_breaker\<lparr>p_success_count := 1\<rparr>)) = 0 \<and>
   p_failure_count (p_on_success (ex_half_open_breaker\<lparr>p_success_count := 1\<rparr>)) = 0"
proof -
  let ?c = "CircuitBreaker_init 1 60 2 None"
  let ?h = "ex_half_open_breaker\<lparr>p_success_count := 1\<rparr>"
  have c0: "p_state ?c = CLOSED" "p_failure_count ?c = 0" by (simp_all add: CircuitBreaker_init_def)
  have f: "p_state (p_on_failure fst ?c ((6, 1) :: world)) \<noteq> p_state ?c"
    by (simp add: CircuitBreaker_init_def p_on_failure_def p_trip_def)
  have q: "p_state (snd (state fst ex_open_breaker ((70, 1) :: world))) \<noteq> p_state ex_open_breaker"
    by (simp add: ex_open_breaker_eq state_def p_should_attempt_reset_def)
  have s: "p_state (p_on_success ?h) \<noteq> p_state ?h"
    by (simp add: ex_half_open_breaker_eq p_on_success_def p_reset_def)
  have fc: "p_failure_count ex_open_breaker = 1" by (simp add: ex_open_breaker_eq)
  show ?thesis
    using CB_transition_counters [of fst ?c "(6, 1) :: world"] f c0
      CB_transition_counters [of fst ex_open_breaker "(70, 1) :: world"] q fc
      CB_transition_counters [of fst ?h "(70, 1) :: world"] s
    by simp
qed

text \<open>
  Claim C9. From any breaker, \<open>reset\<close> gives state CLOSED with both counters 0, and a second
  \<open>reset\<close> changes nothing.
\<close>

theorem CB_reset_closes_and_is_idempotent:
  "p_state (reset cb) = CLOSED \<and> p_failure_count (reset cb) = 0 \<and>
   p_success_count (reset cb) = 0 \<and> reset (reset cb) = reset cb"
  by (simp add: reset_def p_reset_def)

text \<open>
  Claim C10. \<open>get_stats\<close> leaves the breaker as it is. For an OPEN breaker whose \<open>timeout\<close>
  has elapsed since the last failure, the snapshot still reports the state \<open>open\<close> and the
  counters and failure time as stored, while the state read at that moment answers HALF\_OPEN,
  also after \<open>get_stats\<close>.
\<close>

theorem CB_get_stats_reads_without_transition:
  fixes clock :: "'w \<Rightarrow> real"
  shows
  "snd (get_stats cb) = cb \<and>
   (p_state cb = OPEN \<and> p_last_failure_time cb = Some t \<and> clock w - t \<ge> timeout cb \<longrightarrow>
      stats_state (fst (get_stats cb)) = CircuitState_value OPEN \<and>
      stats_failure_count (fst (get_stats cb)) = p_failure_count cb \<and>
      stats_success_count (fst (get_stats cb)) = p_success_count cb \<and>
      stats_last_failure_time (fst (get_stats cb)) = Some t \<and>
      fst (state clock cb w) = HALF_OPEN \<and>
      fst (state clock (snd (get_stats cb)) w) = HALF_OPEN)"
  by (simp add: get_stats_def state_def p_should_attempt_reset_def)

theorem CB_get_stats_reads_without_transition_witness:
  "p_state ex_open_breaker = OPEN \<and> p_last_failure_time ex_open_breaker = Some 6 \<and>
   fst ((70, 1) :: world) - 6 \<ge> timeout ex_open_breaker \<and>
   snd (get_stats ex_open_breaker) = ex_open_breaker \<and>
   stats_state (fst (get_stats ex_open_breaker)) = ''open'' \<and>
   stats_failure_count (fst (get_stats ex_open_breaker)) = 1 \<and>
   fst (state fst ex_open_breaker ((70, 1) :: world)) = HALF_OPEN"
  using CB_get_stats_reads_without_transition [of ex_open_breaker 6 fst "(70, 1) :: world"]
  by (simp add: ex_open_breaker_eq)

section \<open>Retry: properties\<close>

lemma time_sleep_returns:
  "in_range d \<Longrightarrow> 0 \<le> d \<Longrightarrow> time_sleep advance in_range d w = (Inr (), advance d w)"
  by (simp add: time_sleep_def)

lemma sleep_returns_eq: "sleep_returns sleep d w \<Longrightarrow> sleep d w = (Inr (), snd (sleep d w))"
  by (cases "sleep d w") (auto simp: sleep_returns_def split: sum.splits)

lemma execute_loop_retry:
  assumes "attempt < max_attempts self - 1" and "func w = (Inl e, w')" and "exceptions self e"
    and "sleep_returns sleep delay w'"
  shows "execute_loop sleep self func attempt delay last_exception w =
         execute_loop sleep (self\<lparr>attempts := attempt + 1\<rparr>) func (attempt + 1)
           (delay * backoff_factor self) (Some e) (snd (sleep delay w'))"
proof -
  obtain w'' where s: "sleep delay w' = (Inr (), w'')"
    using sleep_returns_eq [OF assms(4)] by blast
  show ?thesis using assms(1-3) by (subst execute_loop.simps) (simp add: s)
qed

lemma execute_loop_exhausted:
  assumes "attempt = max_attempts self - 1" and "func w = (Inl e, w')" and "exceptions self e"
  shows "execute_loop sleep self func attempt delay last_exception w =
         (Inl (RetryExhaustedError (exhausted_message (max_attempts self)) (Some e)),
          self\<lparr>attempts := max_attempts self\<rparr>, w')"
  using assms by (subst execute_loop.simps) simp

lemma execute_loop_propagates:
  assumes "attempt < max_attempts self" and "func w = (Inl e, w')" and "\<not> exceptions self e"
  shows "execute_loop sleep self func attempt delay last_exception w =
         (Inl e, self\<lparr>attempts := attempt + 1\<rparr>, w')"
  using assms by (subst execute_loop.simps) simp

lemma execute_loop_returns:
  assumes "attempt < max_attempts self" and "func w = (Inr r, w')"
  shows "execute_loop sleep self func attempt delay last_exception w =
         (Inr r, self\<lparr>attempts := attempt + 1\<rparr>, w')"
  using assms by (subst execute_loop.simps) simp

lemma execute_loop_sleep_raises:
  assumes "attempt < max_attempts self - 1" and "func w = (Inl e, w')" and "exceptions self e"
    and "sleep delay w' = (Inl e', w'')"
  shows "execute_loop sleep self func attempt delay last_exception w =
         (Inl e', self\<lparr>attempts := attempt + 1\<rparr>, w'')"
  using assms by (subst execute_loop.simps) simp

lemma execute_loop_forgets:
  assumes "attempt < max_attempts self"
  shows "execute_loop sleep (self\<lparr>attempts := x\<rparr>) func attempt delay last_exception w =
         execute_loop sleep self func attempt delay last_exception' w"
  using assms
  by (subst execute_loop.simps, subst (2) execute_loop.simps) simp

lemma attempt_world_upd [simp]:
  "attempt_world sleep (self\<lparr>attempts := a\<rparr>) func w k = attempt_world sleep self func w k"
  by (induction k) auto

lemma execute_after_retries:
  "int k < max_attempts self \<Longrightarrow> \<forall>j < k. retried sleep self func w j \<Longrightarrow>
     execute sleep self func w =
       execute_loop sleep self func (int k) (initial_delay self * backoff_factor self ^ k) None
         (attempt_world sleep self func w k)"
proof (induction k)
  case 0
  show ?case by (simp add: execute_def)
next
  case (Suc k)
  let ?W = "attempt_world sleep self func w"
  let ?d = "initial_delay self * backoff_factor self ^ k"
  have IH: "execute sleep self func w = execute_loop sleep self func (int k) ?d None (?W k)"
    using Suc by simp
  have rk: "retried sleep self func w k" using Suc.prems by simp
  then have "fails_retryable self func (?W k)" by (simp add: retried_def)
  then obtain e w' where f: "func (?W k) = (Inl e, w')" and ex: "exceptions self e"
    by (cases "func (?W k)") (auto simp: fails_retryable_def split: sum.splits)
  have sl: "sleep_returns sleep ?d w'" using rk f by (simp add: retried_def)
  have lt: "int k < max_attempts self - 1" using Suc.prems by simp
  have "execute_loop sleep self func (int k) ?d None (?W k) =
        execute_loop sleep (self\<lparr>attempts := int k + 1\<rparr>) func (int k + 1)
           (?d * backoff_factor self) (Some e) (snd (sleep ?d w'))"
    using lt f ex sl by (rule execute_loop_retry)
  also have "\<dots> = execute_loop sleep self func (int k + 1) (?d * backoff_factor self) None
                    (snd (sleep ?d w'))"
    using Suc.prems(1) by (intro execute_loop_forgets) simp
  finally have step: "execute_loop sleep self func (int k) ?d None (?W k) =
      execute_loop sleep self func (int k + 1) (?d * backoff_factor self) None
        (snd (sleep ?d w'))" .
  have w: "snd (sleep ?d w') = ?W (Suc k)" using f by simp
  have a: "int k + 1 = int (Suc k)" by simp
  have d: "?d * backoff_factor self = initial_delay self * backoff_factor self ^ Suc k" by simp
  show ?case using IH step unfolding w a d by (rule trans)
qed

lemma count_attempt_world:
  assumes "\<forall>v. count (snd (func v)) = Suc (count v)"
    and "\<forall>d v. count (snd (sleep d v)) = count v"
  shows "count (attempt_world sleep self func w k) = count w + (k::nat)"
  using assms by (induction k) auto

lemma wrapper_loop_execute_loop:
  "n = nat (max_attempts self - attempt) \<Longrightarrow>
   wrapper_loop sleep (max_attempts self) (backoff_factor self) (exceptions self) None func
     attempt delay le w =
   (fst (execute_loop sleep self func attempt delay le w),
    snd (snd (execute_loop sleep self func attempt delay le w)))"
proof (induction n arbitrary: self attempt delay le w)
  case 0
  then have "\<not> attempt < max_attempts self" by simp
  then show ?case
    by (subst wrapper_loop.simps, subst execute_loop.simps, subst (2) execute_loop.simps) simp
next
  case (Suc n)
  let ?s1 = "self\<lparr>attempts := attempt + 1\<rparr>"
  have n: "n = nat (max_attempts ?s1 - (attempt + 1))" using Suc.prems by simp
  have IH: "wrapper_loop sleep (max_attempts self) (backoff_factor self) (exceptions self) None func
     (attempt + 1) d le' v =
   (fst (execute_loop sleep ?s1 func (attempt + 1) d le' v),
    snd (snd (execute_loop sleep ?s1 func (attempt + 1) d le' v)))" for d le' v
    using Suc.IH [OF n] by simp
  show ?case
    by (subst wrapper_loop.simps, subst execute_loop.simps, subst (2) execute_loop.simps)
       (simp add: IH split: prod.splits sum.splits)
qed

lemma retry_execute:
  "retry sleep (max_attempts self) (initial_delay self) (backoff_factor self) (exceptions self)
     None func w =
   (fst (execute sleep self func w), snd (snd (execute sleep self func w)))"
  unfolding retry_def execute_def by (rule wrapper_loop_execute_loop [OF refl])

lemma ex_sleep_returns:
  "0 \<le> d \<Longrightarrow> d \<le> 9223372036 \<Longrightarrow> ex_sleep d v = (Inr (), (fst v + d, snd v))"
  by (simp add: ex_sleep_def time_sleep_def ex_in_range_def ex_advance_def)

lemma ex_failing_retryable: "fails_retryable (Retry_init 3 d b ex_retryable) ex_failing v"
  by (simp add: fails_retryable_def Retry_init_def ex_failing_def ex_retryable_def)

text \<open>
  Claim C5 as stated fails: \<open>Retry.__init__\<close> accepts any delay and \<open>time.sleep\<close> does not.
  With \<open>max_attempts\<close> 3 and a callable that raises a retryable exception whenever it is
  invoked, an initial delay of \<open>-1\<close> ends \<open>execute\<close> with \<open>ValueError\<close> and an initial delay
  of \<open>1e10\<close> seconds ends it with \<open>OverflowError\<close>, each after one invocation.
\<close>

theorem Retry_exhausts_for_every_policy_counterexample:
  "1 \<le> max_attempts (Retry_init 3 (- 1) 2 ex_retryable) \<and>
   fails_retryable (Retry_init 3 (- 1) 2 ex_retryable) ex_failing (0, 0) \<and>
   execute ex_sleep (Retry_init 3 (- 1) 2 ex_retryable) ex_failing (0, 0) =
     (Inl (Raised True ''ValueError'' ''sleep length must be non-negative''),
      (Retry_init 3 (- 1) 2 ex_retryable)\<lparr>attempts := 1\<rparr>, (1, 1)) \<and>
   1 \<le> max_attempts (Retry_init 3 10000000000 2 ex_retryable) \<and>
   fails_retryable (Retry_init 3 10000000000 2 ex_retryable) ex_failing (0, 0) \<and>
   execute ex_sleep (Retry_init 3 10000000000 2 ex_retryable) ex_failing (0, 0) =
     (Inl (Raised True ''OverflowError'' ''timestamp too large to convert to C _PyTime_t''),
      (Retry_init 3 10000000000 2 ex_retryable)\<lparr>attempts := 1\<rparr>, (1, 1))"
proof -
  have neg: "execute ex_sleep (Retry_init 3 (- 1) 2 ex_retryable) ex_failing (0, 0) =
     (Inl (Raised True ''ValueError'' ''sleep length must be non-negative''),
      (Retry_init 3 (- 1) 2 ex_retryable)\<lparr>attempts := 0 + 1\<rparr>, (1, 1))"
    unfolding execute_def
    by (rule execute_loop_sleep_raises [where e = "Raised True ''ConnectionError'' ''service down''"
          and w' = "(1, 1)"])
       (simp_all add: Retry_init_def ex_failing_def ex_retryable_def ex_sleep_def time_sleep_def
          ex_in_range_def)
  have big: "execute ex_sleep (Retry_init 3 10000000000 2 ex_retryable) ex_failing (0, 0) =
     (Inl (Raised True ''OverflowError'' ''timestamp too large to convert to C _PyTime_t''),
      (Retry_init 3 10000000000 2 ex_retryable)\<lparr>attempts := 0 + 1\<rparr>, (1, 1))"
    unfolding execute_def
    by (rule execute_loop_sleep_raises [where e = "Raised True ''ConnectionError'' ''service down''"
          and w' = "(1, 1)"])
       (simp_all add: Retry_init_def ex_failing_def ex_retryable_def ex_sleep_def time_sleep_def
          ex_in_range_def)
  show ?thesis using neg big by (simp add: ex_failing_retryable) (simp add: Retry_init_def)
qed

text \<open>
  Claim C5, amended. Take a policy with \<open>max_attempts\<close> at least 1; an attempt counts as
  retried when the callable raises a retryable exception and \<open>time.sleep\<close> accepts the delay
  that follows. If every attempt but the last is retried and the last raises a retryable
  exception too, \<open>execute\<close> raises \<open>RetryExhaustedError\<close> whose cause is the exception
  of the last attempt, in the world that attempt left, having invoked the callable
  \<open>max_attempts\<close> times (for every way \<open>count\<close> of counting invocations in the world).
  If after \<open>k\<close> retried attempts the callable raises an exception that is not retryable,
  \<open>execute\<close> raises that very exception in the world that attempt left, after \<open>k + 1\<close>
  invocations. If after \<open>k\<close> retried attempts \<open>time.sleep\<close> refuses the delay, its
  exception leaves \<open>execute\<close>. The decorator \<open>retry\<close> with the same parameters and no
  callback gives the same outcome and world as \<open>execute\<close>.
\<close>

theorem Retry_exhausts_after_max_attempts_or_propagates:
  fixes sleep :: "real \<Rightarrow> ('w, unit) callable" and func :: "('w, 'a) callable"
    and count :: "'w \<Rightarrow> nat"
  assumes m: "1 \<le> max_attempts self"
  shows
  "((\<forall>j < nat (max_attempts self) - 1. retried sleep self func w j) \<and>
    fails_retryable self func (attempt_world sleep self func w (nat (max_attempts self) - 1)) \<longrightarrow>
      (\<exists>e w'. func (attempt_world sleep self func w (nat (max_attempts self) - 1)) = (Inl e, w') \<and>
         execute sleep self func w =
           (Inl (RetryExhaustedError (exhausted_message (max_attempts self)) (Some e)),
            self\<lparr>attempts := max_attempts self\<rparr>, w') \<and>
         ((\<forall>v. count (snd (func v)) = Suc (count v)) \<and> (\<forall>d v. count (snd (sleep d v)) = count v) \<longrightarrow>
            count w' = count w + nat (max_attempts self)))) \<and>
   (\<forall>k e w'. int k < max_attempts self \<and> (\<forall>j < k. retried sleep self func w j) \<and>
        func (attempt_world sleep self func w k) = (Inl e, w') \<and> \<not> exceptions self e \<longrightarrow>
      execute sleep self func w = (Inl e, self\<lparr>attempts := int k + 1\<rparr>, w') \<and>
      ((\<forall>v. count (snd (func v)) = Suc (count v)) \<and> (\<forall>d v. count (snd (sleep d v)) = count v) \<longrightarrow>
         count w' = count w + k + 1)) \<and>
   (\<forall>k e w' e' w''. int k < max_attempts self - 1 \<and> (\<forall>j < k. retried sleep self func w j) \<and>
        func (attempt_world sleep self func w k) = (Inl e, w') \<and> exceptions self e \<and>
        sleep (initial_delay self * backoff_factor self ^ k) w' = (Inl e', w'') \<longrightarrow>
      execute sleep self func w = (Inl e', self\<lparr>attempts := int k + 1\<rparr>, w'')) \<and>
   retry sleep (max_attempts self) (initial_delay self) (backoff_factor self) (exceptions self)
       None func w =
     (fst (execute sleep self func w), snd (snd (execute sleep self func w)))"
proof -
  let ?W = "attempt_world sleep self func w"
  let ?n = "nat (max_attempts self)"
  let ?C = "(\<forall>v. count (snd (func v)) = Suc (count v)) \<and> (\<forall>d v. count (snd (sleep d v)) = count v)"
  have cw: "count (?W k) = count w + k" if "?C" for k
    using that by (intro count_attempt_world) simp_all
  have loop: "execute sleep self func w =
         execute_loop sleep self func (int k)
           (initial_delay self * backoff_factor self ^ k) None (?W k)"
    if "int k < max_attempts self" and "\<forall>j < k. retried sleep self func w j" for k
    using that by (rule execute_after_retries)
  have part1: "\<exists>e w'. func (?W (?n - 1)) = (Inl e, w') \<and>
         execute sleep self func w =
           (Inl (RetryExhaustedError (exhausted_message (max_attempts self)) (Some e)),
            self\<lparr>attempts := max_attempts self\<rparr>, w') \<and>
         (?C \<longrightarrow> count w' = count w + ?n)"
    if all: "(\<forall>j < ?n - 1. retried sleep self func w j) \<and> fails_retryable self func (?W (?n - 1))"
  proof -
    have k: "int (?n - 1) < max_attempts self" using m by simp
    have lp: "execute sleep self func w =
         execute_loop sleep self func (int (?n - 1))
           (initial_delay self * backoff_factor self ^ (?n - 1)) None (?W (?n - 1))"
      using k all by (intro loop) simp_all
    have "fails_retryable self func (?W (?n - 1))" using all by simp
    then obtain e w' where f: "func (?W (?n - 1)) = (Inl e, w')" and ex: "exceptions self e"
      by (cases "func (?W (?n - 1))") (auto simp: fails_retryable_def split: sum.splits)
    have a: "int (?n - 1) = max_attempts self - 1" using m by simp
    have res: "execute sleep self func w =
             (Inl (RetryExhaustedError (exhausted_message (max_attempts self)) (Some e)),
              self\<lparr>attempts := max_attempts self\<rparr>, w')"
      unfolding lp using a f ex by (rule execute_loop_exhausted)
    have cnt: "count w' = count w + ?n" if c: "?C"
    proof -
      have "count w' = Suc (count (?W (?n - 1)))" using c f by (metis snd_conv)
      then show ?thesis using cw [OF c, of "?n - 1"] m by simp
    qed
    show ?thesis using f res cnt by blast
  qed
  have part2: "execute sleep self func w = (Inl e, self\<lparr>attempts := int k + 1\<rparr>, w') \<and>
      (?C \<longrightarrow> count w' = count w + k + 1)"
    if h: "int k < max_attempts self \<and> (\<forall>j < k. retried sleep self func w j) \<and>
        func (?W k) = (Inl e, w') \<and> \<not> exceptions self e" for k e w'
  proof -
    have lp: "execute sleep self func w =
         execute_loop sleep self func (int k)
           (initial_delay self * backoff_factor self ^ k) None (?W k)"
      using h by (intro loop) simp_all
    have res: "execute sleep self func w = (Inl e, self\<lparr>attempts := int k + 1\<rparr>, w')"
      unfolding lp using h by (intro execute_loop_propagates) simp_all
    have cnt: "count w' = count w + k + 1" if c: "?C"
    proof -
      have "count w' = Suc (count (?W k))" using c h by (metis snd_conv)
      then show ?thesis using cw [OF c, of k] by simp
    qed
    show ?thesis using res cnt by blast
  qed
  have part3: "execute sleep self func w = (Inl e', self\<lparr>attempts := int k + 1\<rparr>, w'')"
    if h: "int k < max_attempts self - 1 \<and> (\<forall>j < k. retried sleep self func w j) \<and>
        func (?W k) = (Inl e, w') \<and> exceptions self e \<and>
        sleep (initial_delay self * backoff_factor self ^ k) w' = (Inl e', w'')" for k e w' e' w''
  proof -
    have lp: "execute sleep self func w =
         execute_loop sleep self func (int k)
           (initial_delay self * backoff_factor self ^ k) None (?W k)"
      using h by (intro loop) simp_all
    show ?thesis
      unfolding lp using h by (intro execute_loop_sleep_raises [where e = e and w' = w']) simp_all
  qed
  have part4: "retry sleep (max_attempts self) (initial_delay self) (backoff_factor self)
       (exceptions self) None func w =
     (fst (execute sleep self func w), snd (snd (execute sleep self func w)))"
    by (rule retry_execute)
  show ?thesis
  proof (intro conjI)
    show "(\<forall>j < ?n - 1. retried sleep self func w j) \<and> fails_retryable self func (?W (?n - 1)) \<longrightarrow>
      (\<exists>e w'. func (?W (?n - 1)) = (Inl e, w') \<and>
         execute sleep self func w =
           (Inl (RetryExhaustedError (exhausted_message (max_attempts self)) (Some e)),
            self\<lparr>attempts := max_attempts self\<rparr>, w') \<and>
         (?C \<longrightarrow> count w' = count w + ?n))"
      using part1 by (rule impI)
    show "\<forall>k e w'. int k < max_attempts self \<and> (\<forall>j < k. retried sleep self func w j) \<and>
        func (?W k) = (Inl e, w') \<and> \<not> exceptions self e \<longrightarrow>
      execute sleep self func w = (Inl e, self\<lparr>attempts := int k + 1\<rparr>, w') \<and>
      (?C \<longrightarrow> count w' = count w + k + 1)"
      using part2 by blast
    show "\<forall>k e w' e' w''. int k < max_attempts self - 1 \<and> (\<forall>j < k. retried sleep self func w j) \<and>
        func (?W k) = (Inl e, w') \<and> exceptions self e \<and>
        sleep (initial_delay self * backoff_factor self ^ k) w' = (Inl e', w'') \<longrightarrow>
      execute sleep self func w = (Inl e', self\<lparr>attempts := int k + 1\<rparr>, w'')"
      using part3 by blast
    show "retry sleep (max_attempts self) (initial_delay self) (backoff_factor self)
       (exceptions self) None func w =
     (fst (execute sleep self func w), snd (snd (execute sleep self func w)))"
      by (rule part4)
  qed
qed

lemma ex_attempt_world_1:
  "attempt_world ex_sleep (Retry_init 3 1 2 ex_retryable) ex_failing (0, 0) (Suc 0) = (2, 1)"
  by (simp add: Retry_init_def ex_failing_def ex_sleep_returns)

lemma ex_attempt_world_2:
  "attempt_world ex_sleep (Retry_init 3 1 2 ex_retryable) ex_failing (0, 0) (Suc (Suc 0)) = (5, 2)"
  unfolding attempt_world.simps(2) [of _ _ _ _ "Suc 0"] ex_attempt_world_1
  by (simp add: Retry_init_def ex_failing_def ex_sleep_returns)

lemma ex_retried:
  "j < Suc (Suc 0) \<Longrightarrow> retried ex_sleep (Retry_init 3 1 2 ex_retryable) ex_failing (0, 0) j"
proof -
  assume "j < Suc (Suc 0)"
  then consider "j = 0" | "j = Suc 0" by linarith
  then show ?thesis
  proof cases
    case 1
    then show ?thesis
      by (simp add: retried_def ex_failing_retryable sleep_returns_def)
         (simp add: Retry_init_def ex_failing_def ex_sleep_returns)
  next
    case 2
    then show ?thesis
      by (simp add: retried_def ex_failing_retryable sleep_returns_def ex_attempt_world_1
            del: attempt_world.simps)
         (simp add: Retry_init_def ex_failing_def ex_sleep_returns)
  qed
qed

theorem Retry_exhausts_after_max_attempts_or_propagates_witness:
  "execute ex_sleep (Retry_init 3 1 2 ex_retryable) ex_failing (0, 0) =
     (Inl (RetryExhaustedError (exhausted_message 3)
             (Some (Raised True ''ConnectionError'' ''service down''))),
      (Retry_init 3 1 2 ex_retryable)\<lparr>attempts := 3\<rparr>, (6, 3)) \<and>
   execute ex_sleep (Retry_init 3 1 2 ex_retryable) ex_fatal (0, 0) =
     (Inl (Raised True ''ValueError'' ''bad request''),
      (Retry_init 3 1 2 ex_retryable)\<lparr>attempts := 1\<rparr>, (1, 1))"
proof -
  let ?r = "Retry_init 3 1 2 ex_retryable"
  have m: "1 \<le> max_attempts ?r" by (simp add: Retry_init_def)
  have mx: "max_attempts ?r = 3" by (simp add: Retry_init_def)
  have n1: "nat (max_attempts ?r) - 1 = Suc (Suc 0)" by (simp add: mx)
  note t1 = Retry_exhausts_after_max_attempts_or_propagates
    [OF m, where sleep = ex_sleep and func = ex_failing and w = "(0, 0)" and count = snd]
  note t2 = Retry_exhausts_after_max_attempts_or_propagates
    [OF m, where sleep = ex_sleep and func = ex_fatal and w = "(0, 0)" and count = snd]
  have all: "(\<forall>j < nat (max_attempts ?r) - 1. retried ex_sleep ?r ex_failing (0, 0) j) \<and>
      fails_retryable ?r ex_failing (attempt_world ex_sleep ?r ex_failing (0, 0) (nat (max_attempts ?r) - 1))"
    unfolding n1 using ex_retried by (simp add: ex_failing_retryable del: attempt_world.simps)
  from t1 all obtain e w' where
    f: "ex_failing (attempt_world ex_sleep ?r ex_failing (0, 0) (nat (max_attempts ?r) - 1)) = (Inl e, w')"
    and r: "execute ex_sleep ?r ex_failing (0, 0) =
           (Inl (RetryExhaustedError (exhausted_message (max_attempts ?r)) (Some e)),
            ?r\<lparr>attempts := max_attempts ?r\<rparr>, w')"
    by blast
  have "ex_failing (attempt_world ex_sleep ?r ex_failing (0, 0) (nat (max_attempts ?r) - 1)) =
        (Inl (Raised True ''ConnectionError'' ''service down''), (6, 3))"
    unfolding n1 ex_attempt_world_2 by (simp add: ex_failing_def)
  with f have ew: "e = Raised True ''ConnectionError'' ''service down''" "w' = (6, 3)" by simp_all
  have first: "execute ex_sleep ?r ex_failing (0, 0) =
     (Inl (RetryExhaustedError (exhausted_message 3)
             (Some (Raised True ''ConnectionError'' ''service down''))),
      ?r\<lparr>attempts := 3\<rparr>, (6, 3))"
    using r unfolding ew mx .
  have h2: "int 0 < max_attempts ?r \<and>
        (\<forall>j < 0. retried ex_sleep ?r ex_fatal (0, 0) j) \<and>
        ex_fatal (attempt_world ex_sleep ?r ex_fatal (0, 0) 0) =
          (Inl (Raised True ''ValueError'' ''bad request''), (1, 1)) \<and>
        \<not> exceptions ?r (Raised True ''ValueError'' ''bad request'')"
    by (simp add: Retry_init_def ex_fatal_def ex_retryable_def)
  have "execute ex_sleep ?r ex_fatal (0, 0) =
      (Inl (Raised True ''ValueError'' ''bad request''), ?r\<lparr>attempts := int 0 + 1\<rparr>, (1, 1))"
    using t2 h2 by blast
  then have second: "execute ex_sleep ?r ex_fatal (0, 0) =
      (Inl (Raised True ''ValueError'' ''bad request''), ?r\<lparr>attempts := 1\<rparr>, (1, 1))"
    by simp
  show ?thesis using first second by (rule conjI)
qed

lemma exhausted_message_example: "exhausted_message 3 = ''Failed after 3 attempts''"
  by (simp add: exhausted_message_def str_int_def digits.simps)

text \<open>What one run of the loop leaves on the policy object.\<close>

lemma execute_loop_attempts:
  fixes sleep :: "real \<Rightarrow> ('w, unit) callable" and func :: "('w, 'a) callable"
    and count :: "'w \<Rightarrow> nat"
  shows "n = nat (max_attempts self - attempt) \<Longrightarrow> attempt < max_attempts self \<Longrightarrow>
   execute_loop sleep self func attempt delay le w = (r, self', w') \<Longrightarrow>
   self' = self\<lparr>attempts := attempts self'\<rparr> \<and> attempt < attempts self' \<and>
   attempts self' \<le> max_attempts self \<and>
   ((\<forall>v. count (snd (func v)) = Suc (count v)) \<and> (\<forall>d v. count (snd (sleep d v)) = count v) \<longrightarrow>
      int (count w') = int (count w) + (attempts self' - attempt))"
proof (induction n arbitrary: self attempt delay le w)
  case 0
  then show ?case by simp
next
  case (Suc n)
  let ?C = "(\<forall>v. count (snd (func v)) = Suc (count v)) \<and> (\<forall>d v. count (snd (sleep d v)) = count v)"
  let ?s1 = "self\<lparr>attempts := attempt + 1\<rparr>"
  obtain o1 w1 where f: "func w = (o1, w1)" by (cases "func w")
  have c1: "?C \<longrightarrow> count w1 = Suc (count w)" using f by (metis snd_conv)
  have stop: ?case
    if e: "execute_loop sleep self func attempt delay le w = (x, ?s1, v)"
      and v: "?C \<longrightarrow> count v = count w1" for x v
  proof -
    from e Suc.prems(3) have "self' = ?s1" "w' = v" by simp_all
    then show ?thesis using Suc.prems(2) c1 v by simp
  qed
  show ?case
  proof (cases o1)
    case (Inr res)
    have "execute_loop sleep self func attempt delay le w = (Inr res, ?s1, w1)"
      using Suc.prems(2) f unfolding Inr by (rule execute_loop_returns)
    then show ?thesis by (rule stop) simp
  next
    case (Inl e)
    note fe = f [unfolded Inl]
    show ?thesis
    proof (cases "exceptions self e")
      case False
      have "execute_loop sleep self func attempt delay le w = (Inl e, ?s1, w1)"
        using Suc.prems(2) fe False by (rule execute_loop_propagates)
      then show ?thesis by (rule stop) simp
    next
      case True
      show ?thesis
      proof (cases "attempt < max_attempts self - 1")
        case False
        then have a: "attempt = max_attempts self - 1" using Suc.prems(2) by simp
        have "execute_loop sleep self func attempt delay le w =
              (Inl (RetryExhaustedError (exhausted_message (max_attempts self)) (Some e)),
               self\<lparr>attempts := max_attempts self\<rparr>, w1)"
          using a fe True by (rule execute_loop_exhausted)
        moreover have "max_attempts self = attempt + 1" using a by simp
        ultimately have "execute_loop sleep self func attempt delay le w =
              (Inl (RetryExhaustedError (exhausted_message (max_attempts self)) (Some e)), ?s1, w1)"
          by simp
        then show ?thesis by (rule stop) simp
      next
        case lt: True
        obtain o2 w2 where sl: "sleep delay w1 = (o2, w2)" by (cases "sleep delay w1")
        have c2: "?C \<longrightarrow> count w2 = count w1" using sl by (metis snd_conv)
        show ?thesis
        proof (cases o2)
          case (Inl e')
          have "execute_loop sleep self func attempt delay le w = (Inl e', ?s1, w2)"
            using lt fe \<open>exceptions self e\<close> sl [unfolded Inl] by (rule execute_loop_sleep_raises)
          then show ?thesis using c2 by (rule stop)
        next
          case (Inr u)
          have sr: "sleep_returns sleep delay w1" by (simp add: sleep_returns_def sl Inr)
          have w2: "snd (sleep delay w1) = w2" by (simp add: sl)
          have "execute_loop sleep self func attempt delay le w =
             execute_loop sleep ?s1 func (attempt + 1) (delay * backoff_factor self) (Some e)
               (snd (sleep delay w1))"
            using lt fe \<open>exceptions self e\<close> sr by (rule execute_loop_retry)
          then have rec: "execute_loop sleep ?s1 func (attempt + 1) (delay * backoff_factor self)
               (Some e) w2 = (r, self', w')"
            using Suc.prems(3) unfolding w2 by simp
          have n: "n = nat (max_attempts ?s1 - (attempt + 1))" using Suc.prems(1) by simp
          have l: "attempt + 1 < max_attempts ?s1" using lt by simp
          have IH: "self' = ?s1\<lparr>attempts := attempts self'\<rparr> \<and> attempt + 1 < attempts self' \<and>
             attempts self' \<le> max_attempts ?s1 \<and>
             (?C \<longrightarrow> int (count w') = int (count w2) + (attempts self' - (attempt + 1)))"
            using n l rec by (rule Suc.IH)
          have g1: "self' = self\<lparr>attempts := attempts self'\<rparr>"
          proof -
            from IH have "self' = ?s1\<lparr>attempts := attempts self'\<rparr>" by (rule conjunct1)
            then show ?thesis by simp
          qed
          have g2: "attempt < attempts self'" using IH by simp
          have g3: "attempts self' \<le> max_attempts self" using IH by simp
          have g4: "?C \<longrightarrow> int (count w') = int (count w) + (attempts self' - attempt)"
          proof
            assume c: ?C
            then have "count w2 = Suc (count w)" using c1 c2 by simp
            moreover have "int (count w') = int (count w2) + (attempts self' - (attempt + 1))"
              using IH c by blast
            ultimately show "int (count w') = int (count w) + (attempts self' - attempt)" by simp
          qed
          show ?thesis using g1 g2 g3 g4 by blast
        qed
      qed
    qed
  qed
qed

lemma ex_execute_failing:
  "execute ex_sleep (Retry_init 3 1 2 ex_retryable) ex_failing (0, 0) =
     (Inl (RetryExhaustedError (exhausted_message 3)
             (Some (Raised True ''ConnectionError'' ''service down''))),
      (Retry_init 3 1 2 ex_retryable)\<lparr>attempts := 3\<rparr>, (6, 3))"
proof -
  let ?r = "Retry_init 3 1 2 ex_retryable"
  have "execute ex_sleep ?r ex_failing (0, 0) =
       execute_loop ex_sleep ?r ex_failing (int (Suc (Suc 0)))
         (initial_delay ?r * backoff_factor ?r ^ Suc (Suc 0)) None
         (attempt_world ex_sleep ?r ex_failing (0, 0) (Suc (Suc 0)))"
  proof (rule execute_after_retries)
    show "int (Suc (Suc 0)) < max_attempts ?r" by (simp add: Retry_init_def)
    show "\<forall>j < Suc (Suc 0). retried ex_sleep ?r ex_failing (0, 0) j" by (simp add: ex_retried)
  qed
  also have "\<dots> = (Inl (RetryExhaustedError (exhausted_message (max_attempts ?r))
             (Some (Raised True ''ConnectionError'' ''service down''))),
      ?r\<lparr>attempts := max_attempts ?r\<rparr>, (6, 3))"
    unfolding ex_attempt_world_2
    by (rule execute_loop_exhausted)
       (simp_all add: Retry_init_def ex_failing_def ex_retryable_def)
  finally show ?thesis by (simp add: Retry_init_def)
qed

text \<open>
  Claim C8 as stated fails: \<open>execute\<close> assigns \<open>self.attempts\<close>, so the policy object after
  one successful call differs from the policy object before it.
\<close>

theorem Retry_execute_counts_on_policy_object_counterexample:
  "attempts (Retry_init 3 1 2 ex_retryable) = 0 \<and>
   attempts (fst (snd (execute ex_sleep (Retry_init 3 1 2 ex_retryable) ex_working (0, 0)))) = 1 \<and>
   fst (snd (execute ex_sleep (Retry_init 3 1 2 ex_retryable) ex_working (0, 0))) \<noteq>
     Retry_init 3 1 2 ex_retryable"
proof -
  have "execute ex_sleep (Retry_init 3 1 2 ex_retryable) ex_working (0, 0) =
     (Inr ''ok'', (Retry_init 3 1 2 ex_retryable)\<lparr>attempts := 0 + 1\<rparr>, (1, 1))"
    unfolding execute_def
    by (intro execute_loop_returns) (simp_all add: Retry_init_def ex_working_def)
  then show ?thesis by (auto simp: Retry_init_def)
qed

text \<open>
  Claim C8, amended. With \<open>max_attempts\<close> at least 1, \<open>execute\<close> changes the attribute
  \<open>attempts\<close> of the policy object and no other; afterwards \<open>attempts\<close> lies between 1 and
  \<open>max_attempts\<close> and is the number of invocations made (for every way of counting them in
  the world); and the count starts afresh in every call: what \<open>execute\<close> returns and leaves
  behind does not depend on the value of \<open>attempts\<close> it finds. This holds whatever
  \<open>time.sleep\<close> does.
\<close>

theorem Retry_execute_writes_only_attempts:
  fixes sleep :: "real \<Rightarrow> ('w, unit) callable" and func :: "('w, 'a) callable"
    and count :: "'w \<Rightarrow> nat"
  assumes m: "1 \<le> max_attempts self"
  shows
  "fst (snd (execute sleep self func w)) =
     self\<lparr>attempts := attempts (fst (snd (execute sleep self func w)))\<rparr> \<and>
   1 \<le> attempts (fst (snd (execute sleep self func w))) \<and>
   attempts (fst (snd (execute sleep self func w))) \<le> max_attempts self \<and>
   ((\<forall>v. count (snd (func v)) = Suc (count v)) \<and> (\<forall>d v. count (snd (sleep d v)) = count v) \<longrightarrow>
      int (count (snd (snd (execute sleep self func w)))) =
        int (count w) + attempts (fst (snd (execute sleep self func w)))) \<and>
   execute sleep (self\<lparr>attempts := x\<rparr>) func w = execute sleep self func w"
proof -
  obtain r self' w' where e: "execute sleep self func w = (r, self', w')"
    by (cases "execute sleep self func w")
  have lt: "0 < max_attempts self" using m by simp
  have "self' = self\<lparr>attempts := attempts self'\<rparr> \<and> 0 < attempts self' \<and>
   attempts self' \<le> max_attempts self \<and>
   ((\<forall>v. count (snd (func v)) = Suc (count v)) \<and> (\<forall>d v. count (snd (sleep d v)) = count v) \<longrightarrow>
      int (count w') = int (count w) + (attempts self' - 0))"
    using execute_loop_attempts [OF refl lt e [unfolded execute_def]] .
  moreover have "execute sleep (self\<lparr>attempts := x\<rparr>) func w = execute sleep self func w"
    unfolding execute_def using lt by (simp add: execute_loop_forgets)
  ultimately show ?thesis unfolding e by simp
qed

theorem Retry_execute_writes_only_attempts_witness:
  "fst (snd (execute ex_sleep (Retry_init 3 1 2 ex_retryable) ex_failing (0, 0))) =
     (Retry_init 3 1 2 ex_retryable)\<lparr>attempts := 3\<rparr> \<and>
   snd (snd (snd (execute ex_sleep (Retry_init 3 1 2 ex_retryable) ex_failing (0, 0)))) = 3 \<and>
   execute ex_sleep ((Retry_init 3 1 2 ex_retryable)\<lparr>attempts := 3\<rparr>) ex_failing (0, 0) =
     execute ex_sleep (Retry_init 3 1 2 ex_retryable) ex_failing (0, 0)"
proof -
  let ?r = "Retry_init 3 1 2 ex_retryable"
  let ?e = "execute ex_sleep ?r ex_failing (0, 0)"
  have m: "1 \<le> max_attempts ?r" by (simp add: Retry_init_def)
  note t = Retry_execute_writes_only_attempts
    [OF m, where sleep = ex_sleep and func = ex_failing and w = "(0, 0)" and count = snd and x = 3]
  have c: "(\<forall>v. snd (snd (ex_failing v)) = Suc (snd v)) \<and> (\<forall>d v. snd (snd (ex_sleep d v)) = snd v)"
    by (simp add: ex_failing_def ex_sleep_def time_sleep_def ex_advance_def)
  have cnt: "int (snd (snd (snd ?e))) = int (snd ((0, 0) :: world)) + attempts (fst (snd ?e))"
    using t c by blast
  have same: "execute ex_sleep (?r\<lparr>attempts := 3\<rparr>) ex_failing (0, 0) = ?e"
    using t by blast
  have shape: "fst (snd ?e) = ?r\<lparr>attempts := attempts (fst (snd ?e))\<rparr>" using t by blast
  have "snd (snd ?e) = (6, 3)" by (simp add: ex_execute_failing)
  then have w3: "snd (snd (snd ?e)) = 3" by simp
  with cnt have a3: "attempts (fst (snd ?e)) = 3" by simp
  show ?thesis using shape a3 w3 same by simp
qed

section \<open>Health checks: properties\<close>

lemma check_result_fields:
  assumes "check clock chk w = (Inr r, chk', w')"
  shows "res_critical r = critical chk \<and> critical chk' = critical chk \<and>
         res_name r = hc_name chk \<and> hc_name chk' = hc_name chk"
  using assms
  by (cases "check_fn chk w") (auto simp: check_def Let_def split: sum.splits if_splits)

lemma check_returns:
  assumes "case fst (check_fn chk w) of Inl e \<Rightarrow> is_Exception e | Inr b \<Rightarrow> True"
  shows "\<exists>r chk'. check clock chk w = (Inr r, chk', snd (check_fn chk w))"
  using assms
  by (cases "check_fn chk w") (auto simp: check_def Let_def split: sum.splits)

lemma aggregate_Nil: "aggregate [] = HEALTHY"
  by (simp add: aggregate_def)

lemma aggregate_snoc:
  "aggregate (rs @ [r]) =
     (if res_status r = HealthStatus_value UNHEALTHY then
        (if res_critical r then UNHEALTHY
         else if aggregate rs = HEALTHY then DEGRADED
         else aggregate rs)
      else aggregate rs)"
  by (simp add: aggregate_def)

lemma list_ex_critical_unhealthy:
  fixes xs :: "check_result list"
  shows "list_ex (\<lambda>r. res_critical r \<and> res_status r = HealthStatus_value UNHEALTHY) xs \<longleftrightarrow>
         (True, HealthStatus_value UNHEALTHY) \<in> (\<lambda>r. (res_critical r, res_status r)) ` set xs"
  unfolding list_ex_iff by force

lemma list_ex_unhealthy:
  fixes xs :: "check_result list"
  shows "list_ex (\<lambda>r. res_status r = HealthStatus_value UNHEALTHY) xs \<longleftrightarrow>
         (\<exists>c. (c, HealthStatus_value UNHEALTHY) \<in> (\<lambda>r. (res_critical r, res_status r)) ` set xs)"
  unfolding list_ex_iff by force

lemma aggregate_cong:
  assumes "(\<lambda>r. (res_critical r, res_status r)) ` set rs = (\<lambda>r. (res_critical r, res_status r)) ` set rs'"
  shows "aggregate rs = aggregate rs'"
  unfolding aggregate_def list_ex_critical_unhealthy list_ex_unhealthy assms ..

lemma check_all_loop_invariant:
  "check_all_loop clock cs results overall w = (Inr (results', overall'), cs', w') \<Longrightarrow>
   overall = aggregate results \<Longrightarrow>
   overall' = aggregate results' \<and>
   (\<exists>new. results' = results @ new \<and>
      map res_critical new = map (\<lambda>c. critical (snd c)) cs \<and>
      map res_name new = map (\<lambda>c. hc_name (snd c)) cs)"
proof (induction cs arbitrary: results overall w cs')
  case Nil
  then show ?case by auto
next
  case (Cons c cs)
  obtain k chk where c: "c = (k, chk)" by (cases c)
  obtain o1 chk1 w1 where ch: "check clock chk w = (o1, chk1, w1)" by (cases "check clock chk w")
  from Cons.prems(1) obtain r where o1: "o1 = Inr r"
    unfolding c using ch by (cases o1) auto
  note chr = ch [unfolded o1]
  have fields: "res_critical r = critical chk \<and> critical chk1 = critical chk \<and>
         res_name r = hc_name chk \<and> hc_name chk1 = hc_name chk"
    using chr by (rule check_result_fields)
  let ?ov = "if res_status r = HealthStatus_value UNHEALTHY then
                    (if critical chk1 then UNHEALTHY
                     else if overall = HEALTHY then DEGRADED
                     else overall)
                  else overall"
  obtain cs1 where rec: "check_all_loop clock cs (results @ [r]) ?ov w1 = (Inr (results', overall'), cs1, w')"
    using Cons.prems(1) unfolding c
    by (cases "check_all_loop clock cs (results @ [r]) ?ov w1") (simp add: chr Let_def)
  have ov: "?ov = aggregate (results @ [r])"
    using Cons.prems(2) fields by (simp add: aggregate_snoc)
  have IH: "overall' = aggregate results' \<and>
   (\<exists>new. results' = (results @ [r]) @ new \<and>
      map res_critical new = map (\<lambda>c. critical (snd c)) cs \<and>
      map res_name new = map (\<lambda>c. hc_name (snd c)) cs)"
    using rec ov by (rule Cons.IH)
  then obtain new where new: "results' = (results @ [r]) @ new"
      "map res_critical new = map (\<lambda>c. critical (snd c)) cs"
      "map res_name new = map (\<lambda>c. hc_name (snd c)) cs"
    by blast
  have "results' = results @ (r # new) \<and>
      map res_critical (r # new) = map (\<lambda>c. critical (snd c)) (c # cs) \<and>
      map res_name (r # new) = map (\<lambda>c. hc_name (snd c)) (c # cs)"
    using new fields by (simp add: c)
  then show ?case using IH by blast
qed

lemma check_all_loop_returns:
  "\<forall>(k, c) \<in> set cs. \<forall>v. (case fst (check_fn c v) of Inl e \<Rightarrow> is_Exception e | Inr b \<Rightarrow> True) \<Longrightarrow>
   \<exists>res cs' w'. check_all_loop clock cs results overall w = (Inr res, cs', w')"
proof (induction cs arbitrary: results overall w)
  case Nil
  then show ?case by simp
next
  case (Cons c cs)
  obtain k chk where c: "c = (k, chk)" by (cases c)
  have "case fst (check_fn chk w) of Inl e \<Rightarrow> is_Exception e | Inr b \<Rightarrow> True"
    using Cons.prems by (simp add: c)
  from check_returns [OF this, of clock]
  obtain r chk1 where chr: "check clock chk w = (Inr r, chk1, snd (check_fn chk w))"
    by blast
  let ?w1 = "snd (check_fn chk w)"
  let ?ov = "if res_status r = HealthStatus_value UNHEALTHY then
                    (if critical chk1 then UNHEALTHY
                     else if overall = HEALTHY then DEGRADED
                     else overall)
                  else overall"
  have "\<forall>(k, c) \<in> set cs. \<forall>v. (case fst (check_fn c v) of Inl e \<Rightarrow> is_Exception e | Inr b \<Rightarrow> True)"
    using Cons.prems by simp
  then obtain res cs1 w' where "check_all_loop clock cs (results @ [r]) ?ov ?w1 = (Inr res, cs1, w')"
    using Cons.IH by blast
  then show ?case by (simp add: c chr Let_def)
qed

text \<open>
  Claim C6. Whenever \<open>check_all\<close> returns a report, its status is the one the rule gives for
  the result records in it (UNHEALTHY if a critical record is unhealthy, else DEGRADED if any
  record is unhealthy, else HEALTHY), and the records carry the names and the \<open>critical\<close>
  flags of the registered checks, in their order. Any other run whose report holds the same
  set of (critical, status) pairs, in whatever order, has the same status. \<open>check_all\<close>
  does return a report when no probe raises an exception outside \<open>Exception\<close>.
\<close>

theorem check_all_overall_status:
  fixes clock :: "'w \<Rightarrow> real"
  shows
  "(\<forall>rep hm' w'. check_all clock hm w = (Inr rep, hm', w') \<longrightarrow>
      rep_status rep = HealthStatus_value (aggregate (rep_checks rep)) \<and>
      map res_critical (rep_checks rep) = map (\<lambda>c. critical (snd c)) (checks hm) \<and>
      map res_name (rep_checks rep) = map (\<lambda>c. hc_name (snd c)) (checks hm) \<and>
      (\<forall>hm2 w2 rep2 hm2' w2'. check_all clock hm2 w2 = (Inr rep2, hm2', w2') \<and>
         (\<lambda>r. (res_critical r, res_status r)) ` set (rep_checks rep2) =
         (\<lambda>r. (res_critical r, res_status r)) ` set (rep_checks rep) \<longrightarrow>
         rep_status rep2 = rep_status rep)) \<and>
   ((\<forall>(k, c) \<in> set (checks hm). \<forall>v.
        (case fst (check_fn c v) of Inl e \<Rightarrow> is_Exception e | Inr b \<Rightarrow> True)) \<longrightarrow>
      (\<exists>rep hm' w'. check_all clock hm w = (Inr rep, hm', w')))"
proof -
  have part1: "rep_status rep = HealthStatus_value (aggregate (rep_checks rep)) \<and>
      map res_critical (rep_checks rep) = map (\<lambda>c. critical (snd c)) (checks hm) \<and>
      map res_name (rep_checks rep) = map (\<lambda>c. hc_name (snd c)) (checks hm)"
    if e: "check_all clock hm w = (Inr rep, hm', w')" for rep hm' w' and hm :: "'w HealthMonitor" and w
  proof -
    obtain o1 cs1 w1 where l: "check_all_loop clock (checks hm) [] HEALTHY w = (o1, cs1, w1)"
      by (cases "check_all_loop clock (checks hm) [] HEALTHY w")
    from e l obtain results overall where o1: "o1 = Inr (results, overall)"
      by (cases o1) (auto simp: check_all_def)
    have rep: "rep = \<lparr> rep_status = HealthStatus_value overall, rep_timestamp = clock w1,
                       rep_checks = results \<rparr>"
      using e l o1 by (auto simp: check_all_def)
    have "overall = aggregate results \<and>
      (\<exists>new. results = [] @ new \<and>
        map res_critical new = map (\<lambda>c. critical (snd c)) (checks hm) \<and>
        map res_name new = map (\<lambda>c. hc_name (snd c)) (checks hm))"
      using l [unfolded o1] by (rule check_all_loop_invariant) (simp add: aggregate_Nil)
    then show ?thesis by (simp add: rep)
  qed
  have part2: "\<exists>rep hm' w'. check_all clock hm w = (Inr rep, hm', w')"
    if ok: "\<forall>(k, c) \<in> set (checks hm). \<forall>v.
        (case fst (check_fn c v) of Inl e \<Rightarrow> is_Exception e | Inr b \<Rightarrow> True)"
  proof -
    obtain res cs' w' where "check_all_loop clock (checks hm) [] HEALTHY w = (Inr res, cs', w')"
      using check_all_loop_returns [OF ok] by blast
    then show ?thesis by (cases res) (simp add: check_all_def)
  qed
  have part3: "rep_status rep2 = rep_status rep"
    if "check_all clock hm w = (Inr rep, hm', w')"
      and "check_all clock hm2 w2 = (Inr rep2, hm2', w2')"
      and "(\<lambda>r. (res_critical r, res_status r)) ` set (rep_checks rep2) =
           (\<lambda>r. (res_critical r, res_status r)) ` set (rep_checks rep)"
    for rep hm' w' hm2 w2 rep2 hm2' w2'
    using part1 [OF that(1)] part1 [OF that(2)] aggregate_cong [OF that(3)] by simp
  have all1: "\<forall>rep hm' w'. check_all clock hm w = (Inr rep, hm', w') \<longrightarrow>
      rep_status rep = HealthStatus_value (aggregate (rep_checks rep)) \<and>
      map res_critical (rep_checks rep) = map (\<lambda>c. critical (snd c)) (checks hm) \<and>
      map res_name (rep_checks rep) = map (\<lambda>c. hc_name (snd c)) (checks hm) \<and>
      (\<forall>hm2 w2 rep2 hm2' w2'. check_all clock hm2 w2 = (Inr rep2, hm2', w2') \<and>
         (\<lambda>r. (res_critical r, res_status r)) ` set (rep_checks rep2) =
         (\<lambda>r. (res_critical r, res_status r)) ` set (rep_checks rep) \<longrightarrow>
         rep_status rep2 = rep_status rep)"
  proof (intro allI impI conjI)
    fix rep hm' w'
    assume e: "check_all clock hm w = (Inr rep, hm', w')"
    show "rep_status rep = HealthStatus_value (aggregate (rep_checks rep))"
      and "map res_critical (rep_checks rep) = map (\<lambda>c. critical (snd c)) (checks hm)"
      and "map res_name (rep_checks rep) = map (\<lambda>c. hc_name (snd c)) (checks hm)"
      using part1 [OF e] by simp_all
    fix hm2 w2 rep2 hm2' w2'
    assume a: "check_all clock hm2 w2 = (Inr rep2, hm2', w2') \<and>
         (\<lambda>r. (res_critical r, res_status r)) ` set (rep_checks rep2) =
         (\<lambda>r. (res_critical r, res_status r)) ` set (rep_checks rep)"
    show "rep_status rep2 = rep_status rep"
      using e conjunct1 [OF a] conjunct2 [OF a] by (rule part3)
  qed
  show ?thesis
  proof (rule conjI)
    show "\<forall>rep hm' w'. check_all clock hm w = (Inr rep, hm', w') \<longrightarrow>
      rep_status rep = HealthStatus_value (aggregate (rep_checks rep)) \<and>
      map res_critical (rep_checks rep) = map (\<lambda>c. critical (snd c)) (checks hm) \<and>
      map res_name (rep_checks rep) = map (\<lambda>c. hc_name (snd c)) (checks hm) \<and>
      (\<forall>hm2 w2 rep2 hm2' w2'. check_all clock hm2 w2 = (Inr rep2, hm2', w2') \<and>
         (\<lambda>r. (res_critical r, res_status r)) ` set (rep_checks rep2) =
         (\<lambda>r. (res_critical r, res_status r)) ` set (rep_checks rep) \<longrightarrow>
         rep_status rep2 = rep_status rep)"
      by (rule all1)
    show "(\<forall>(k, c) \<in> set (checks hm). \<forall>v.
        (case fst (check_fn c v) of Inl e \<Rightarrow> is_Exception e | Inr b \<Rightarrow> True)) \<longrightarrow>
      (\<exists>rep hm' w'. check_all clock hm w = (Inr rep, hm', w'))"
      using part2 by (rule impI)
  qed
qed

lemmas health_ex_defs = check_all_def check_def add_check_def HealthMonitor_init_def
  HealthCheck_init_def ex_probe_down_def ex_probe_up_def ex_probe_raises_def Let_def

lemma ex_monitor_degraded_checks:
  "\<exists>rep hm' w'. check_all fst ex_monitor_degraded (0, 0) = (Inr rep, hm', w') \<and>
     rep_checks rep =
             [\<lparr> res_name = ''cache'', res_status = ''unhealthy'', res_critical = False,
                 res_duration = 1, res_timestamp = 0, res_error = None \<rparr>,
              \<lparr> res_name = ''db'', res_status = ''healthy'', res_critical = True,
                 res_duration = 1, res_timestamp = 1, res_error = None \<rparr>]"
  by (simp add: ex_monitor_degraded_def health_ex_defs)

lemma ex_monitor_down_checks:
  "\<exists>rep hm' w'. check_all fst ex_monitor_down (0, 0) = (Inr rep, hm', w') \<and>
     rep_checks rep =
             [\<lparr> res_name = ''db'', res_status = ''unhealthy'', res_critical = True,
                 res_duration = 1, res_timestamp = 0, res_error = None \<rparr>,
              \<lparr> res_name = ''cache'', res_status = ''unhealthy'', res_critical = False,
                 res_duration = 1, res_timestamp = 1, res_error = Some ''API timeout'' \<rparr>]"
  by (simp add: ex_monitor_down_def health_ex_defs)

lemma ex_monitor_up_checks:
  "\<exists>rep hm' w'. check_all fst ex_monitor_up (0, 0) = (Inr rep, hm', w') \<and>
     rep_checks rep =
             [\<lparr> res_name = ''db'', res_status = ''healthy'', res_critical = True,
                 res_duration = 1, res_timestamp = 0, res_error = None \<rparr>,
              \<lparr> res_name = ''cache'', res_status = ''healthy'', res_critical = False,
                 res_duration = 1, res_timestamp = 1, res_error = None \<rparr>]"
  by (simp add: ex_monitor_up_def health_ex_defs)

theorem check_all_overall_status_witness:
  "(\<exists>rep hm' w'. check_all fst ex_monitor_down (0, 0) = (Inr rep, hm', w') \<and>
      rep_status rep = ''unhealthy'') \<and>
   (\<exists>rep hm' w'. check_all fst ex_monitor_degraded (0, 0) = (Inr rep, hm', w') \<and>
      rep_status rep = ''degraded'') \<and>
   (\<exists>rep hm' w'. check_all fst ex_monitor_up (0, 0) = (Inr rep, hm', w') \<and>
      rep_status rep = ''healthy'')"
proof -
  have st: "rep_status rep = HealthStatus_value (aggregate (rep_checks rep))"
    if "check_all fst hm (0, 0) = (Inr rep, hm', w')" for hm :: "world HealthMonitor" and rep hm' w'
    using check_all_overall_status [of fst hm "(0, 0)"] that by blast
  have ok: "\<forall>(k, c) \<in> set (checks ex_monitor_down). \<forall>v.
        (case fst (check_fn c v) of Inl e \<Rightarrow> is_Exception e | Inr b \<Rightarrow> True)"
    by (simp add: ex_monitor_down_def add_check_def HealthMonitor_init_def HealthCheck_init_def
        ex_probe_down_def ex_probe_raises_def)
  obtain r1 h1 w1 where 1: "check_all fst ex_monitor_down (0, 0) = (Inr r1, h1, w1)"
    using check_all_overall_status [of fst ex_monitor_down "(0, 0)"] ok by blast
  have c1: "rep_checks r1 =
             [\<lparr> res_name = ''db'', res_status = ''unhealthy'', res_critical = True,
                 res_duration = 1, res_timestamp = 0, res_error = None \<rparr>,
              \<lparr> res_name = ''cache'', res_status = ''unhealthy'', res_critical = False,
                 res_duration = 1, res_timestamp = 1, res_error = Some ''API timeout'' \<rparr>]"
    using ex_monitor_down_checks 1 by auto
  obtain r2 h2 w2 where 2: "check_all fst ex_monitor_degraded (0, 0) = (Inr r2, h2, w2)"
    and c2: "rep_checks r2 =
             [\<lparr> res_name = ''cache'', res_status = ''unhealthy'', res_critical = False,
                 res_duration = 1, res_timestamp = 0, res_error = None \<rparr>,
              \<lparr> res_name = ''db'', res_status = ''healthy'', res_critical = True,
                 res_duration = 1, res_timestamp = 1, res_error = None \<rparr>]"
    using ex_monitor_degraded_checks by blast
  obtain r3 h3 w3 where 3: "check_all fst ex_monitor_up (0, 0) = (Inr r3, h3, w3)"
    and c3: "rep_checks r3 =
             [\<lparr> res_name = ''db'', res_status = ''healthy'', res_critical = True,
                 res_duration = 1, res_timestamp = 0, res_error = None \<rparr>,
              \<lparr> res_name = ''cache'', res_status = ''healthy'', res_critical = False,
                 res_duration = 1, res_timestamp = 1, res_error = None \<rparr>]"
    using ex_monitor_up_checks by blast
  have "rep_status r1 = ''unhealthy''" using st [OF 1] by (simp add: c1 aggregate_def)
  moreover have "rep_status r2 = ''degraded''" using st [OF 2] by (simp add: c2 aggregate_def)
  moreover have "rep_status r3 = ''healthy''" using st [OF 3] by (simp add: c3 aggregate_def)
  ultimately show ?thesis using 1 2 3 by blast
qed

text \<open>
  What \<open>check\<close> does classify: a probe that returns \<open>True\<close> is HEALTHY, one that returns
  \<open>False\<close> is UNHEALTHY, and one that raises an \<open>Exception\<close> gives an UNHEALTHY record with
  \<open>str(e)\<close> as error instead of raising.
\<close>

lemma check_classifies_probe:
  "(check_fn chk w = (Inr True, w') \<longrightarrow>
      (\<exists>r chk'. check clock chk w = (Inr r, chk', w') \<and>
         res_status r = HealthStatus_value HEALTHY \<and> res_error r = None \<and>
         last_status chk' = Some HEALTHY)) \<and>
   (check_fn chk w = (Inr False, w') \<longrightarrow>
      (\<exists>r chk'. check clock chk w = (Inr r, chk', w') \<and>
         res_status r = HealthStatus_value UNHEALTHY \<and> res_error r = None \<and>
         last_status chk' = Some UNHEALTHY)) \<and>
   (check_fn chk w = (Inl e, w') \<and> is_Exception e \<longrightarrow>
      (\<exists>r chk'. check clock chk w = (Inr r, chk', w') \<and>
         res_status r = HealthStatus_value UNHEALTHY \<and> res_error r = Some (str_exc e) \<and>
         last_status chk' = Some UNHEALTHY \<and> last_error chk' = Some (str_exc e)))"
  by (simp add: check_def Let_def)

text \<open>
  Claim C7 at a probe that answers \<open>True\<close> after 10 seconds, under a \<open>timeout\<close> of 5:
  \<open>check\<close> reports the duration 10 and the status \<open>healthy\<close>. The attribute
  \<open>timeout\<close> is stored by \<open>__init__\<close> and read nowhere.
\<close>

theorem check_does_not_enforce_timeout:
  "hc_timeout ex_slow_check = 5 \<and>
   fst (check fst ex_slow_check (0, 0)) =
     Inr \<lparr> res_name = ''api'', res_status = ''healthy'', res_critical = True,
           res_duration = 10, res_timestamp = 0, res_error = None \<rparr>"
  by (simp add: ex_slow_check_def HealthCheck_init_def check_def ex_probe_slow_def Let_def)

end
